theory Spec2Isabelle
  imports Complex_Main "HOL-Library.Sublist" "HOL-Library.Product_Lexorder" "HOL-Library.Multiset"
begin

section \<open>Text primitives of the Python sources\<close>

text \<open>
  The scripts read C\# source files as text and work on \<open>str\<close> values. A text is modelled
  as a \<open>string\<close>; one \<open>char\<close> stands for one code point below 256 (ASCII and Latin-1),
  which is where the character classes below are taken from: \<open>str.isspace\<close> (also the
  class \<open>\s\<close> of \<open>re\<close>), the class \<open>\w\<close> of \<open>re\<close> and \<open>str.lower\<close>.
\<close>

definition isspace :: "char \<Rightarrow> bool" where
  "isspace c = (of_char c \<in> {9, 10, 11, 12, 13, 28, 29, 30, 31, 32, 133, 160 :: nat})"

definition isword :: "char \<Rightarrow> bool" where
  "isword c =
     (let n = (of_char c :: nat)
      in (48 \<le> n \<and> n \<le> 57) \<or> (65 \<le> n \<and> n \<le> 90) \<or> n = 95 \<or> (97 \<le> n \<and> n \<le> 122) \<or>
         n \<in> {170, 178, 179, 181, 185, 186, 188, 189, 190} \<or>
         (192 \<le> n \<and> n \<le> 214) \<or> (216 \<le> n \<and> n \<le> 246) \<or> (248 \<le> n \<and> n \<le> 255))"

definition lower_char :: "char \<Rightarrow> char" where
  "lower_char c =
     (let n = (of_char c :: nat)
      in if (65 \<le> n \<and> n \<le> 90) \<or> (192 \<le> n \<and> n \<le> 222 \<and> n \<noteq> 215)
         then char_of (n + 32) else c)"

definition lower :: "string \<Rightarrow> string" where
  "lower s = map lower_char s"

definition lstrip :: "string \<Rightarrow> string" where
  "lstrip s = dropWhile isspace s"

definition rstrip :: "string \<Rightarrow> string" where
  "rstrip s = rev (dropWhile isspace (rev s))"

definition strip :: "string \<Rightarrow> string" where
  "strip s = rstrip (lstrip s)"

text \<open>\<open>s.startswith(p)\<close> is \<open>prefix p s\<close>; \<open>sub in s\<close> is \<open>contains sub s\<close>.\<close>

fun contains :: "string \<Rightarrow> string \<Rightarrow> bool" where
  "contains sub [] = (sub = [])"
| "contains sub (c # cs) = (prefix sub (c # cs) \<or> contains sub cs)"

text \<open>\<open>s.split(sep)[0]\<close>: the text before the first occurrence of \<open>sep\<close>, all of \<open>s\<close>
  when \<open>sep\<close> does not occur. The separator of the source is never empty.\<close>

fun split_first :: "string \<Rightarrow> string \<Rightarrow> string" where
  "split_first sep [] = []"
| "split_first sep (c # cs) = (if prefix sep (c # cs) then [] else c # split_first sep cs)"

text \<open>\<open>s.count(c)\<close> for a one-character \<open>c\<close>, as a Python integer.\<close>

definition count_char :: "char \<Rightarrow> string \<Rightarrow> int" where
  "count_char c s = int (length (filter (\<lambda>x. x = c) s))"

text \<open>\<open>any(x in s for x in xs)\<close>.\<close>

definition any_in :: "string list \<Rightarrow> string \<Rightarrow> bool" where
  "any_in xs s = list_ex (\<lambda>x. contains x s) xs"

subsection \<open>Regular expressions\<close>

text \<open>
  The patterns the scripts hand to \<open>re.match\<close> and \<open>re.search\<close> use literals, the classes
  \<open>\s\<close>, \<open>\w\<close> and \<open>[^c]\<close>, grouping, alternation, \<open>?\<close>, \<open>*\<close> and \<open>+\<close>; only the truth value
  of the result is used (except in \<open>extract_namespace\<close>, which is written out below). A
  pattern is its abstract syntax; matching is by derivatives, which decides whether some
  text is in the pattern's language, the question \<open>re\<close> answers by backtracking.
\<close>

datatype rx = Zero | Eps | Chr char | NotChr char | Space | Word
  | Seq rx rx | Alt rx rx | Star rx

definition Str :: "string \<Rightarrow> rx" where
  "Str s = foldr (\<lambda>c r. Seq (Chr c) r) s Eps"

definition Plus :: "rx \<Rightarrow> rx" where
  "Plus r = Seq r (Star r)"

definition Opt :: "rx \<Rightarrow> rx" where
  "Opt r = Alt r Eps"

definition Seqs :: "rx list \<Rightarrow> rx" where
  "Seqs rs = foldr Seq rs Eps"

fun nullable :: "rx \<Rightarrow> bool" where
  "nullable Zero = False"
| "nullable Eps = True"
| "nullable (Chr c) = False"
| "nullable (NotChr c) = False"
| "nullable Space = False"
| "nullable Word = False"
| "nullable (Seq r s) = (nullable r \<and> nullable s)"
| "nullable (Alt r s) = (nullable r \<or> nullable s)"
| "nullable (Star r) = True"

text \<open>Sequence and choice that drop the empty language, so that a derivative stays small.\<close>

fun seq :: "rx \<Rightarrow> rx \<Rightarrow> rx" where
  "seq Zero s = Zero"
| "seq r Zero = Zero"
| "seq Eps s = s"
| "seq r s = Seq r s"

fun alt :: "rx \<Rightarrow> rx \<Rightarrow> rx" where
  "alt Zero s = s"
| "alt r Zero = r"
| "alt r s = Alt r s"

fun deriv :: "char \<Rightarrow> rx \<Rightarrow> rx" where
  "deriv a Zero = Zero"
| "deriv a Eps = Zero"
| "deriv a (Chr c) = (if a = c then Eps else Zero)"
| "deriv a (NotChr c) = (if a = c then Zero else Eps)"
| "deriv a Space = (if isspace a then Eps else Zero)"
| "deriv a Word = (if isword a then Eps else Zero)"
| "deriv a (Seq r s) =
     (if nullable r then alt (seq (deriv a r) s) (deriv a s) else seq (deriv a r) s)"
| "deriv a (Alt r s) = alt (deriv a r) (deriv a s)"
| "deriv a (Star r) = seq (deriv a r) (Star r)"

text \<open>\<open>re.match(r, s)\<close> is truthy when some prefix of \<open>s\<close> matches \<open>r\<close>;
  \<open>re.search(r, s)\<close> when \<open>r\<close> matches at some position of \<open>s\<close>.\<close>

fun re_match :: "rx \<Rightarrow> string \<Rightarrow> bool" where
  "re_match r [] = nullable r"
| "re_match r (c # cs) = (nullable r \<or> re_match (deriv c r) cs)"

fun re_search :: "rx \<Rightarrow> string \<Rightarrow> bool" where
  "re_search r [] = nullable r"
| "re_search r (c # cs) = (re_match r (c # cs) \<or> re_search r cs)"

text \<open>
  The language of a pattern, for the proof that the matcher is right: the texts the
  pattern matches as a whole. \<open>re.match\<close> finds a match exactly when a prefix of the text is
  in the language, \<open>re.search\<close> exactly when a contiguous part of it is.
\<close>


inductive_set star :: "string set \<Rightarrow> string set" for L :: "string set" where
  star_empty: "[] \<in> star L"
| star_more: "u \<in> L \<Longrightarrow> v \<in> star L \<Longrightarrow> u @ v \<in> star L"

primrec lang :: "rx \<Rightarrow> string set" where
  "lang Zero = {}"
| "lang Eps = {[]}"
| "lang (Chr c) = {[c]}"
| "lang (NotChr c) = {[d] | d. d \<noteq> c}"
| "lang Space = {[d] | d. isspace d}"
| "lang Word = {[d] | d. isword d}"
| "lang (Seq r s) = {u @ v | u v. u \<in> lang r \<and> v \<in> lang s}"
| "lang (Alt r s) = lang r \<union> lang s"
| "lang (Star r) = star (lang r)"

section \<open>SizeClassifier: \<open>enforce_file_size_limits.py\<close>\<close>

datatype py_error = ZeroDivisionError | OverflowError | FileNotFoundError | IndexError

datatype severity = LOW | MEDIUM | HIGH | CRITICAL

definition severity_rank :: "severity \<Rightarrow> nat" where
  "severity_rank s = (case s of LOW \<Rightarrow> 0 | MEDIUM \<Rightarrow> 1 | HIGH \<Rightarrow> 2 | CRITICAL \<Rightarrow> 3)"

text \<open>
  \<open>excess_ratio = (line_count - limit) / limit\<close> is Python's true division of two
  integers: it raises \<open>ZeroDivisionError\<close> on a zero limit, and otherwise returns the
  double nearest to the exact quotient (ties to the even mantissa), or raises
  \<open>OverflowError\<close> when that is beyond the largest double. The model keeps the exact
  quotient and says what each comparison of its double yields:
  \<^item> the nearest double is beyond the range exactly when the quotient's absolute value is
    at least \<open>2^1024 - 2^970\<close>, halfway from the largest double to \<open>2^1024\<close>;
  \<^item> the nearest double is at least \<open>1 / 2^e\<close>, a double with an even mantissa, exactly
    when the quotient is at least halfway from the double below it, which is
    \<open>1 / 2^e - 1 / 2^(e + 54)\<close>.
  So the three comparisons of the source, with 1.0, 0.5 and 0.25, are \<open>double_at_least\<close>
  with \<open>e\<close> = 0, 1 and 2.
\<close>

definition excess_ratio :: "int \<Rightarrow> int \<Rightarrow> real" where
  "excess_ratio line_count limit = real_of_int (line_count - limit) / real_of_int limit"

definition double_overflows :: "real \<Rightarrow> bool" where
  "double_overflows q = (\<bar>q\<bar> \<ge> 2 ^ 1024 - 2 ^ 970)"

definition double_at_least :: "real \<Rightarrow> nat \<Rightarrow> bool" where
  "double_at_least q e = (q \<ge> 1 / 2 ^ e - 1 / 2 ^ (e + 54))"

definition calculate_severity :: "int \<Rightarrow> int \<Rightarrow> py_error + severity" where
  "calculate_severity line_count limit =
     (if limit = 0 then Inl ZeroDivisionError
      else if double_overflows (excess_ratio line_count limit) then Inl OverflowError
      else if double_at_least (excess_ratio line_count limit) 0 then Inr CRITICAL
      else if double_at_least (excess_ratio line_count limit) 1 then Inr HIGH
      else if double_at_least (excess_ratio line_count limit) 2 then Inr MEDIUM
      else Inr LOW)"

definition determine_system_type :: "string \<Rightarrow> string" where
  "determine_system_type path =
     (let path_str = lower path
      in if contains ''/core/'' path_str then ''Core''
         else if contains ''/systems/'' path_str then ''Systems''
         else if contains ''/data/'' path_str then ''Data''
         else if contains ''/ui/'' path_str then ''UI''
         else if contains ''/testing/'' path_str \<or> contains ''/tests/'' path_str then ''Testing''
         else if contains ''/editor/'' path_str then ''Editor''
         else ''Unknown'')"

text \<open>\<open>system_limits.get(system_type, 500)\<close>.\<close>

definition system_limit :: "string \<Rightarrow> int" where
  "system_limit system_type =
     (if system_type = ''Testing'' then 600 else 500)"

record size_violation =
  sv_file :: string
  sv_lines :: int
  sv_limit :: int
  sv_excess :: int
  sv_system :: string
  sv_severity :: severity

text \<open>
  The body of the loop of \<open>check_file_size_violations\<close> for one file that is neither a
  backup nor exempted, given its path and the number of lines read from it: the
  violation appended, if any. An exception inside the \<open>try\<close> is printed and appends
  nothing.
\<close>

definition size_violation_of :: "string \<Rightarrow> int \<Rightarrow> size_violation option" where
  "size_violation_of file_path line_count =
     (let system_type = determine_system_type file_path;
          limit = system_limit system_type
      in if line_count > limit
         then (case calculate_severity line_count limit of
                 Inl e \<Rightarrow> None
               | Inr s \<Rightarrow> Some \<lparr> sv_file = file_path, sv_lines = line_count, sv_limit = limit,
                                 sv_excess = line_count - limit, sv_system = system_type,
                                 sv_severity = s \<rparr>)
         else None)"

text \<open>
  \<open>main\<close>, from the list \<open>check_file_size_violations\<close> returned: the process exit status.
  The list is sorted in place first (descending by the pair of "is critical" and excess,
  Python's stable sort with \<open>reverse=True\<close>), then the findings are counted by severity.
  What is printed on the way is left out, but the last message.
\<close>

datatype size_verdict = NoViolations | CommitBlocked nat | TooManyWarning nat | CommitAllowed nat

definition sort_violations :: "size_violation list \<Rightarrow> size_violation list" where
  "sort_violations vs =
     rev (sort_key (\<lambda>x. (sv_severity x = CRITICAL, sv_excess x)) (rev vs))"

definition severity_counts :: "size_violation list \<Rightarrow> severity \<Rightarrow> nat" where
  "severity_counts vs s = length (filter (\<lambda>v. sv_severity v = s) vs)"

definition file_size_main :: "size_violation list \<Rightarrow> int \<times> size_verdict" where
  "file_size_main violations =
     (if violations = [] then (0, NoViolations)
      else
        let vs = sort_violations violations;
            critical_count = severity_counts vs CRITICAL
        in if critical_count > 0 then (1, CommitBlocked critical_count)
           else if length vs > 110 then (0, TooManyWarning (length vs))
           else (0, CommitAllowed (length vs)))"

section \<open>PatternMatcher: the banned-pattern checkers\<close>

text \<open>
  A violation is the dictionary a checker appends: the file, the line number (counted
  from 1), the pattern that matched and the stripped line.
\<close>

record violation =
  v_file :: string
  v_line :: nat
  v_pattern :: rx
  v_content :: string

text \<open>
  The loop every checker ends with,
  \<^verbatim>\<open>for pattern in patterns: if re.search(pattern, text): violations.append({...})\<close>.
  \<open>mk\<close> builds the dictionary from the pattern.
\<close>

fun report_matches :: "(rx \<Rightarrow> 'v) \<Rightarrow> string \<Rightarrow> rx list \<Rightarrow> 'v list" where
  "report_matches mk text [] = []"
| "report_matches mk text (p # ps) =
     (if re_search p text then mk p # report_matches mk text ps
      else report_matches mk text ps)"

text \<open>\<open>enumerate(lines, 1)\<close>.\<close>

definition enumerate1 :: "'a list \<Rightarrow> (nat \<times> 'a) list" where
  "enumerate1 xs = zip [1 ..< Suc (length xs)] xs"

subsection \<open>\<open>run_quality_gates.py\<close>\<close>

definition FORBIDDEN_PATTERNS :: "rx list" where
  "FORBIDDEN_PATTERNS =
     [Str ''FindObjectOfType<'',
      Str ''FindObjectsOfType<'',
      Str ''GameObject.Find('',
      Str ''Resources.Load'',
      Str ''Debug.Log('',
      Str ''Debug.LogWarning('',
      Str ''Debug.LogError('',
      Str ''.GetField('',
      Str ''.GetProperty('',
      Str ''.GetMethod('',
      Seqs [Str ''typeof('', Plus (NotChr (CHR '')'')), Str '').GetProperty''],
      Str ''Activator.CreateInstance'',
      Str ''Assembly.Load'']"

text \<open>The code text of a line: what \<open>line_content\<close> holds after the inline-comment step.\<close>

definition code_part :: "string \<Rightarrow> string" where
  "code_part line_content =
     (if contains ''//'' line_content then strip (split_first ''//'' line_content)
      else line_content)"

text \<open>The body of the loop of \<open>check_anti_patterns\<close> over the lines of one file.\<close>

definition anti_pattern_line :: "string \<Rightarrow> nat \<Rightarrow> string \<Rightarrow> violation list" where
  "anti_pattern_line file_path i line =
     (let line_content = strip line
      in if prefix ''//'' line_content \<or> prefix ''///'' line_content \<or> prefix ''*'' line_content
         then []
         else
           let line_content = code_part line_content
           in if contains (CHR 0x22 # ''FindObjectOfType'') line_content \<or>
                 contains (CHR 0x22 # ''Resources.Load'') line_content \<or>
                 contains (CHR 0x22 # ''Debug.Log'') line_content then []
              else if contains ''UnityEngine.Object.FindObject'' line_content then []
              else if contains ''ChimeraLogger.Log'' line_content \<or>
                      contains ''UnityEngine.Debug.Log'' line_content then []
              else if any_in [''QualityGateRunner.cs'', ''QualityGates.cs'',
                              ''run_quality_gates.py''] file_path then []
              else if any_in [''AntiPatternMigrationTool'', ''DebugLogMigrationTool'',
                              ''BatchMigration'', ''MigrationScript''] file_path then []
              else if any_in [''ServiceContainer'', ''ServiceAdvancedFeatures'',
                              ''TypedServiceRegistration'', ''/Core/''] file_path \<and>
                      (contains ''.GetMethod('' line_content \<or>
                       contains ''Activator.CreateInstance'' line_content) then []
              else if (any_in [''AudioLoadingService'', ''DataManager'', ''/Interfaces/''] file_path \<or>
                       contains ''// Legacy'' line_content \<or>
                       contains ''// MIGRATION'' line_content) \<and>
                      contains ''Resources.Load'' line_content then []
              else if any_in [''ChimeraLogger.cs'', ''ChimeraScriptableObject.cs'',
                              ''SharedLogger.cs'', ''/Shared/''] file_path then []
              else if any_in [''UIProgressBarManager'', ''UINotificationManager''] file_path \<and>
                      contains ''GameObject.Find'' line_content then []
              else report_matches
                     (\<lambda>p. \<lparr> v_file = file_path, v_line = i, v_pattern = p,
                             v_content = line_content \<rparr>)
                     line_content FORBIDDEN_PATTERNS)"

text \<open>
  \<open>check_anti_patterns\<close> for one file: \<open>find_cs_files\<close> leaves out every path with
  \<open>Testing\<close> or \<open>Editor\<close> in it, so such a file is never read.
\<close>

definition check_anti_patterns_file :: "string \<Rightarrow> string list \<Rightarrow> violation list" where
  "check_anti_patterns_file file_path lines =
     (if contains ''Testing'' file_path \<or> contains ''Editor'' file_path then []
      else concat (map (\<lambda>(i, line). anti_pattern_line file_path i line) (enumerate1 lines)))"


subsection \<open>\<open>enforce_debug_log_ban.py\<close>\<close>

definition debug_log_patterns :: "rx list" where
  "debug_log_patterns =
     [Seqs [Str ''Debug.Log'', Star Space, Chr (CHR ''('')],
      Seqs [Str ''Debug.LogWarning'', Star Space, Chr (CHR ''('')],
      Seqs [Str ''Debug.LogError'', Star Space, Chr (CHR ''('')],
      Seqs [Str ''UnityEngine.Debug.Log'', Star Space, Chr (CHR ''('')]]"

definition debug_log_line :: "string \<Rightarrow> nat \<Rightarrow> string \<Rightarrow> violation list" where
  "debug_log_line file_path line_num line =
     (let line_content = strip line
      in if prefix ''//'' line_content \<or> prefix ''*'' line_content \<or>
            contains (CHR 0x22 # ''Debug.Log'') line_content \<or>
            contains (''@'' @ [CHR 0x22] @ ''Debug'' @ [CHR 0x5C] @ ''.Log'') line_content
         then []
         else report_matches
                (\<lambda>p. \<lparr> v_file = file_path, v_line = line_num, v_pattern = p,
                        v_content = line_content \<rparr>)
                line debug_log_patterns)"


definition debug_log_file :: "string \<Rightarrow> string list \<Rightarrow> violation list" where
  "debug_log_file file_path lines =
     (if any_in [''ChimeraLogger.cs'', ''ChimeraScriptableObject.cs'', ''SharedLogger.cs'',
                 ''QualityGates.cs'', ''QualityGateRunner.cs'', ''AntiPatternMigrationTool.cs'',
                 ''DebugLogMigrationTool.cs'', ''DebugLogAutoMigrationTool.cs'',
                 ''BatchMigrationScript.cs''] file_path then []
      else if any_in [''/Shared/'', ''/CI/'', ''/Editor/''] file_path then []
      else if contains ''.backup'' file_path then []
      else concat (map (\<lambda>(n, line). debug_log_line file_path n line) (enumerate1 lines)))"

subsection \<open>\<open>enforce_findobjectoftype_ban.py\<close>\<close>

definition generic_call :: "string \<Rightarrow> rx" where
  "generic_call name =
     Seqs [Str name, Chr (CHR ''<''), Plus (NotChr (CHR ''>'')), Chr (CHR ''>''), Star Space,
           Chr (CHR ''('')]"

definition findobjectoftype_patterns :: "rx list" where
  "findobjectoftype_patterns =
     [generic_call ''FindObjectOfType'',
      generic_call ''FindObjectsOfType'',
      generic_call ''GameObject.FindObjectOfType'',
      generic_call ''UnityEngine.Object.FindObjectOfType'',
      generic_call ''Object.FindObjectOfType'']"

definition findobjectoftype_line :: "string \<Rightarrow> nat \<Rightarrow> string \<Rightarrow> violation list" where
  "findobjectoftype_line file_path line_num line =
     (let line_content = strip line
      in if prefix ''//'' line_content \<or> prefix ''*'' line_content \<or>
            contains (CHR 0x22 # ''FindObjectOfType'') line_content \<or>
            prefix ''['' line_content
         then []
         else report_matches
                (\<lambda>p. \<lparr> v_file = file_path, v_line = line_num, v_pattern = p,
                        v_content = line_content \<rparr>)
                line findobjectoftype_patterns)"

definition findobjectoftype_file :: "string \<Rightarrow> string list \<Rightarrow> violation list" where
  "findobjectoftype_file file_path lines =
     (if any_in [''QualityGates.cs'', ''AntiPatternMigrationTool.cs'',
                 ''ServiceContainerBootstrapper.cs'', ''DefaultLightingService.cs'',
                 ''FindObjectOfTypeMigrationTest.cs''] file_path then []
      else if contains ''.backup'' file_path then []
      else concat (map (\<lambda>(n, line). findobjectoftype_line file_path n line) (enumerate1 lines)))"

subsection \<open>\<open>enforce_resources_load_ban.py\<close> and the fallback context\<close>

record rl_violation = violation +
  rl_severity :: severity

definition resources_load_patterns :: "rx list" where
  "resources_load_patterns =
     [generic_call ''Resources.Load'',
      Seqs [Str ''Resources.Load'', Star Space, Chr (CHR ''('')],
      generic_call ''Resources.LoadAll'',
      Seqs [Str ''Resources.LoadAll'', Star Space, Chr (CHR ''('')]]"

definition fallback_indicators :: "string list" where
  "fallback_indicators =
     [''fallback to resources'',
      ''addressablesassetmanager not available'',
      ''fallback mechanism'',
      ''if (assetManager == null)'',
      ''catch (system.exception'',
      ''backup loading method'']"

text \<open>\<open>range(a, b)\<close> over Python integers.\<close>

definition py_range :: "int \<Rightarrow> int \<Rightarrow> int list" where
  "py_range a b = [a .. b - 1]"

text \<open>
  \<open>_is_legitimate_fallback\<close>, with the list of indicators as a parameter. Every index of
  the range is at least 0 and below \<open>len(lines)\<close>, so \<open>lines[i]\<close> never raises and never
  counts from the end.
\<close>

definition is_legitimate_fallback_with :: "string list \<Rightarrow> string list \<Rightarrow> int \<Rightarrow> bool" where
  "is_legitimate_fallback_with indicators lines line_idx =
     (let context_lines = 5;
          start_idx = max 0 (line_idx - context_lines)
      in list_ex (\<lambda>i. any_in indicators (lower (strip (lines ! nat i))))
           (py_range start_idx (min (int (length lines)) (line_idx + context_lines))))"

definition is_legitimate_fallback :: "string list \<Rightarrow> int \<Rightarrow> string \<Rightarrow> bool" where
  "is_legitimate_fallback lines line_idx line_content =
     is_legitimate_fallback_with fallback_indicators lines line_idx"

definition assess_severity :: "string \<Rightarrow> string \<Rightarrow> severity" where
  "assess_severity line_content file_path =
     (let path_str = lower file_path
      in if any_in [''core/'', ''manager'', ''system''] path_str then HIGH
         else if contains ''loadall'' (lower line_content) then HIGH
         else if any_in [''ui/'', ''gameplay''] path_str then MEDIUM
         else LOW)"

definition resources_load_line ::
  "string \<Rightarrow> string list \<Rightarrow> nat \<Rightarrow> string \<Rightarrow> rl_violation list" where
  "resources_load_line file_path lines line_num line =
     (let line_content = strip line
      in if prefix ''//'' line_content \<or> prefix ''*'' line_content \<or>
            contains (CHR 0x22 # ''Resources.Load'') line_content \<or>
            prefix ''['' line_content \<or>
            contains ''Fallback to Resources'' line_content \<or>
            contains ''AddressablesAssetManager not available'' line_content
         then []
         else if is_legitimate_fallback lines (int line_num - 1) line_content then []
         else report_matches
                (\<lambda>p. \<lparr> v_file = file_path, v_line = line_num, v_pattern = p,
                        v_content = line_content,
                        rl_severity = assess_severity line_content file_path \<rparr>)
                line resources_load_patterns)"


definition resources_load_file :: "string \<Rightarrow> string list \<Rightarrow> rl_violation list" where
  "resources_load_file file_path lines =
     (if any_in [''DefaultAssetManager.cs'', ''IAssetManager.cs'', ''AssetManagerTest.cs'',
                 ''QualityGates.cs'', ''AntiPatternMigrationTool.cs'', ''AudioLoadingService.cs'',
                 ''DataManager.cs'', ''ServiceContainerBootstrapper.cs'',
                 ''AddressablesMigrationPhase1.cs'', ''AddressablePrefabResolver.cs'',
                 ''AddressablesInfrastructure.cs'', ''AddressablesAssetManager.cs'',
                 ''SchematicManager.cs'', ''SpeedTreeAssetManagementService.cs'',
                 ''enforce_resources_load_ban.py''] file_path then []
      else if any_in [''.backup'', ''Testing/'', ''Tests/'', ''Editor/''] file_path then []
      else concat (map (\<lambda>(n, line). resources_load_line file_path lines n line)
                     (enumerate1 lines)))"

text \<open>
  The symmetric window the specification describes, for comparison: \<open>N\<close> lines before the
  candidate, the candidate and \<open>N\<close> lines after it, each tested for the indicators without
  regard to case.
\<close>

definition spec_fallback_window :: "string list \<Rightarrow> string list \<Rightarrow> int \<Rightarrow> bool" where
  "spec_fallback_window indicators lines line_idx =
     list_ex (\<lambda>i. any_in (map lower indicators) (lower (lines ! nat i)))
       (py_range (max 0 (line_idx - 5)) (min (int (length lines)) (line_idx + 5 + 1)))"

text \<open>
  The list of indicators without \<open>'if (assetManager == null)'\<close>, for comparison with the
  list of the source.
\<close>

definition effective_fallback_indicators :: "string list" where
  "effective_fallback_indicators =
     [''fallback to resources'',
      ''addressablesassetmanager not available'',
      ''fallback mechanism'',
      ''catch (system.exception'',
      ''backup loading method'']"

section \<open>StructuralSplitter: \<open>tier2_auto_refactor.py\<close>\<close>

subsection \<open>Files\<close>

text \<open>
  The file system is a map from paths to the text of the files, and every copy and write
  is logged in the order it happens. A file is opened in text mode, so reading translates
  each line end (CR LF and CR) to LF, and \<open>readlines\<close> cuts after every LF; writing on
  POSIX leaves the text as it is. Directories, permissions and undecodable bytes are not
  modelled.
\<close>

datatype event = Copied string string | Written string string

record fstate =
  files :: "string \<rightharpoonup> string"
  log :: "event list"

fun universal_newlines :: "string \<Rightarrow> string" where
  "universal_newlines [] = []"
| "universal_newlines [c] = [if c = CHR 0x0D then CHR 0x0A else c]"
| "universal_newlines (c # d # ds) =
     (if c = CHR 0x0D \<and> d = CHR 0x0A then CHR 0x0A # universal_newlines ds
      else if c = CHR 0x0D then CHR 0x0A # universal_newlines (d # ds)
      else c # universal_newlines (d # ds))"

fun split_lines :: "string \<Rightarrow> string \<Rightarrow> string list" where
  "split_lines cur [] = (if cur = [] then [] else [cur])"
| "split_lines cur (c # cs) =
     (if c = CHR 0x0A then (cur @ [c]) # split_lines [] cs else split_lines (cur @ [c]) cs)"

definition readlines :: "string \<Rightarrow> string list" where
  "readlines content = split_lines [] (universal_newlines content)"

definition write_text :: "string \<Rightarrow> string \<Rightarrow> fstate \<Rightarrow> fstate" where
  "write_text path text st =
     st\<lparr> files := (files st)(path \<mapsto> text), log := log st @ [Written path text] \<rparr>"

text \<open>\<open>shutil.copy2(src, dst)\<close>: a copy of the bytes, which raises when \<open>src\<close> is missing.\<close>

definition copy2 :: "string \<Rightarrow> string \<Rightarrow> fstate \<Rightarrow> py_error + fstate" where
  "copy2 src dst st =
     (case files st src of
        None \<Rightarrow> Inl FileNotFoundError
      | Some c \<Rightarrow> Inr (st\<lparr> files := (files st)(dst \<mapsto> c), log := log st @ [Copied src dst] \<rparr>))"

definition count_lines :: "string \<Rightarrow> fstate \<Rightarrow> py_error + int" where
  "count_lines filepath st =
     (case files st filepath of
        None \<Rightarrow> Inl FileNotFoundError
      | Some c \<Rightarrow> Inr (int (length (readlines c))))"

text \<open>
  \<open>Path(p).name\<close>, \<open>Path(p).stem\<close> and the directory \<open>Path(p).parent\<close> of a POSIX path
  of a file. The directory is kept as it is written, with its final slash (empty for a
  bare file name): \<open>pathlib\<close> may spell it differently (without a doubled slash or a
  \<open>./\<close>), which names the same directory.
\<close>

definition path_name :: "string \<Rightarrow> string" where
  "path_name p = rev (takeWhile (\<lambda>c. c \<noteq> CHR ''/'') (rev p))"

definition path_dir :: "string \<Rightarrow> string" where
  "path_dir p = rev (dropWhile (\<lambda>c. c \<noteq> CHR ''/'') (rev p))"

definition path_stem :: "string \<Rightarrow> string" where
  "path_stem name =
     (let ext = rev (takeWhile (\<lambda>c. c \<noteq> CHR ''.'') (rev name));
          i = length name - length ext - 1
      in if CHR ''.'' \<in> set name \<and> 0 < i \<and> ext \<noteq> [] then take i name else name)"

subsection \<open>Metadata\<close>

text \<open>
  \<open>extract_namespace\<close>: \<open>re.search(r'namespace\s+([\w\.]+)', content)\<close> and its group 1.
  The leftmost position matches where the word \<open>namespace\<close> is followed by white space and
  then by a name character; the group is the longest run of name characters there.
\<close>

definition namespace_at :: "string \<Rightarrow> string option" where
  "namespace_at s =
     (if prefix ''namespace'' s
      then let r = drop 9 s;
               name = takeWhile (\<lambda>c. isword c \<or> c = CHR ''.'') (dropWhile isspace r)
           in if takeWhile isspace r \<noteq> [] \<and> name \<noteq> [] then Some name else None
      else None)"

fun search_namespace :: "string \<Rightarrow> string option" where
  "search_namespace [] = None"
| "search_namespace (c # cs) =
     (case namespace_at (c # cs) of Some n \<Rightarrow> Some n | None \<Rightarrow> search_namespace cs)"

definition extract_namespace :: "string \<Rightarrow> string" where
  "extract_namespace content =
     (case search_namespace content of Some n \<Rightarrow> n | None \<Rightarrow> ''ProjectChimera'')"

fun extract_using_statements :: "string list \<Rightarrow> string list" where
  "extract_using_statements [] = []"
| "extract_using_statements (line # rest) =
     (if prefix ''using '' (strip line) \<and> \<not> prefix ''using ('' (strip line)
      then rstrip line # extract_using_statements rest
      else if strip line \<noteq> [] \<and> \<not> prefix ''//'' (strip line) \<and> \<not> prefix ''using'' (strip line)
      then []
      else extract_using_statements rest)"

subsection \<open>Finding and extracting the declarations\<close>

text \<open>The header signature
  \<^verbatim>\<open>(public|private|internal|protected)?\s*(class|struct|enum)\s+\w+\<close>,
  tested with \<open>re.match\<close> on the stripped line.\<close>

definition header_rx :: rx where
  "header_rx =
     Seqs [Opt (Alt (Str ''public'') (Alt (Str ''private'')
                  (Alt (Str ''internal'') (Str ''protected'')))),
           Star Space,
           Alt (Str ''class'') (Alt (Str ''struct'') (Str ''enum'')),
           Plus Space, Plus Word]"

definition is_header :: "string \<Rightarrow> bool" where
  "is_header line = re_match header_rx (strip line)"

text \<open>\<open>find_data_structure_start\<close>: the loop over \<open>range(min_line, len(lines))\<close>, run on
  the lines from \<open>min_line\<close> on with the index carried along.\<close>

fun find_header_from :: "string list \<Rightarrow> nat \<Rightarrow> nat option" where
  "find_header_from [] i = None"
| "find_header_from (line # rest) i =
     (if is_header line \<and> i > 50 then Some i else find_header_from rest (Suc i))"

definition find_data_structure_start :: "string list \<Rightarrow> nat \<Rightarrow> nat option" where
  "find_data_structure_start lines min_line = find_header_from (drop min_line lines) min_line"

definition brace_delta :: "string \<Rightarrow> int" where
  "brace_delta line = count_char (CHR ''{'') line - count_char (CHR ''}'') line"

text \<open>
  The loop of \<open>extract_data_structures\<close> over the lines from \<open>start_line\<close> on. Its state is
  the source's: the list \<open>data_structures\<close>, the lines of \<open>current_structure\<close>,
  \<open>brace_count\<close> and \<open>in_structure\<close>.
\<close>

fun extract_loop ::
  "string list \<Rightarrow> string list \<Rightarrow> string list \<Rightarrow> int \<Rightarrow> bool \<Rightarrow> string list" where
  "extract_loop [] data_structures current_structure brace_count in_structure = data_structures"
| "extract_loop (line # rest) data_structures current_structure brace_count in_structure =
     (if is_header line \<and> \<not> in_structure
      then extract_loop rest data_structures [line] (brace_delta line) True
      else if in_structure
      then (if brace_count + brace_delta line = 0
            then extract_loop rest (data_structures @ [concat (current_structure @ [line])])
                   [] (brace_count + brace_delta line) False
            else extract_loop rest data_structures (current_structure @ [line])
                   (brace_count + brace_delta line) True)
      else extract_loop rest data_structures current_structure brace_count in_structure)"

definition extract_data_structures :: "string list \<Rightarrow> nat option \<Rightarrow> string list" where
  "extract_data_structures lines start_line =
     (case start_line of
        None \<Rightarrow> []
      | Some start \<Rightarrow> extract_loop (drop start lines) [] [] 0 False)"

subsection \<open>Writing the two files\<close>

definition data_structures_path :: "string \<Rightarrow> string" where
  "data_structures_path original_file =
     path_dir original_file @ path_stem (path_name original_file) @ ''DataStructures.cs''"

definition data_structures_text ::
  "string \<Rightarrow> string list \<Rightarrow> string \<Rightarrow> string list \<Rightarrow> string" where
  "data_structures_text original_file data_structures namespace using_statements =
     ''// REFACTORED: Data Structures'' @ [CHR 0x0A] @
     ''// Extracted from '' @ path_name original_file @
       '' for better separation of concerns'' @ [CHR 0x0A, CHR 0x0A] @
     concat (map (\<lambda>using. using @ [CHR 0x0A]) using_statements) @
     [CHR 0x0A] @ ''namespace '' @ namespace @ [CHR 0x0A] @ ''{'' @ [CHR 0x0A] @
     concat (map (\<lambda>structure. structure @ [CHR 0x0A]) data_structures) @
     ''}'' @ [CHR 0x0A]"

definition create_data_structures_file ::
  "string \<Rightarrow> string list \<Rightarrow> string \<Rightarrow> string list \<Rightarrow> fstate \<Rightarrow> string \<times> fstate" where
  "create_data_structures_file original_file data_structures namespace using_statements st =
     (let output_file = data_structures_path original_file
      in (output_file,
          write_text output_file
            (data_structures_text original_file data_structures namespace using_statements) st))"

text \<open>
  \<open>create_streamlined_coordinator\<close>. \<open>data_structure_start if data_structure_start else
  len(lines)\<close> takes the length for \<open>None\<close> and for 0. The loop that counts the braces
  reads \<open>lines[i]\<close> for every \<open>i\<close> below \<open>end_line\<close> and raises \<open>IndexError\<close> past the end,
  after the backup has been written and before the file is opened for writing.
\<close>

definition end_line_of :: "string list \<Rightarrow> nat option \<Rightarrow> nat" where
  "end_line_of lines data_structure_start =
     (case data_structure_start of
        None \<Rightarrow> length lines
      | Some start \<Rightarrow> if start = 0 then length lines else start)"

definition coordinator_text :: "string list \<Rightarrow> nat \<Rightarrow> string" where
  "coordinator_text lines end_line =
     (let brace_count = sum_list (map brace_delta (take end_line lines))
      in concat (take (min end_line (length lines)) lines) @
         (if brace_count > 0 then concat (replicate (nat brace_count) (''    }'' @ [CHR 0x0A]))
          else []))"

definition create_streamlined_coordinator ::
  "string \<Rightarrow> string list \<Rightarrow> nat option \<Rightarrow> fstate \<Rightarrow> (py_error + string) \<times> fstate" where
  "create_streamlined_coordinator original_file lines data_structure_start st =
     (let backup_file = original_file @ ''.backup''
      in case copy2 original_file backup_file st of
           Inl e \<Rightarrow> (Inl e, st)
         | Inr st1 \<Rightarrow>
             let end_line = end_line_of lines data_structure_start
             in if end_line > length lines then (Inl IndexError, st1)
                else (Inr backup_file,
                      write_text original_file (coordinator_text lines end_line) st1))"

subsection \<open>\<open>refactor_file\<close>\<close>

text \<open>
  The outcome is the reason of the skip that \<open>refactor_file\<close> prints before it returns
  \<open>False\<close>, or \<open>Refactored\<close> when it returns \<open>True\<close>. The other prints are left out, and
  with them the two line counts taken after the writes only to be printed.
\<close>

datatype outcome = NotFound | AlreadyUnderLimit | AlreadyRefactored
  | NoDataStructuresFound | NoDataStructuresExtracted | Refactored

definition returns_true :: "outcome \<Rightarrow> bool" where
  "returns_true out = (out = Refactored)"

definition refactor_file :: "string \<Rightarrow> fstate \<Rightarrow> (py_error + outcome) \<times> fstate" where
  "refactor_file filepath st =
     (case files st filepath of
        None \<Rightarrow> (Inr NotFound, st)
      | Some text \<Rightarrow>
          (case count_lines filepath st of
             Inl e \<Rightarrow> (Inl e, st)
           | Inr line_count \<Rightarrow>
               if line_count < 500 then (Inr AlreadyUnderLimit, st)
               else if files st (filepath @ ''.backup'') \<noteq> None then (Inr AlreadyRefactored, st)
               else
                 let lines = readlines text;
                     content = concat lines;
                     namespace = extract_namespace content;
                     using_statements = extract_using_statements lines;
                     data_structure_start = find_data_structure_start lines 400
                 in if data_structure_start = None then (Inr NoDataStructuresFound, st)
                    else
                      let data_structures = extract_data_structures lines data_structure_start
                      in if data_structures = [] then (Inr NoDataStructuresExtracted, st)
                         else
                           let (ds_file, st1) =
                                 create_data_structures_file filepath data_structures namespace
                                   using_statements st
                           in (case create_streamlined_coordinator filepath lines
                                      data_structure_start st1 of
                                 (Inl e, st2) \<Rightarrow> (Inl e, st2)
                               | (Inr backup, st2) \<Rightarrow> (Inr Refactored, st2))))"

text \<open>The state of the files after a prefix of the log, replayed from a given state.\<close>

fun replay_event :: "event \<Rightarrow> (string \<rightharpoonup> string) \<Rightarrow> (string \<rightharpoonup> string)" where
  "replay_event (Written path text) fs = fs(path \<mapsto> text)"
| "replay_event (Copied src dst) fs = fs(dst := fs src)"

definition replay :: "event list \<Rightarrow> (string \<rightharpoonup> string) \<Rightarrow> (string \<rightharpoonup> string)" where
  "replay evs fs = foldl (\<lambda>f e. replay_event e f) fs evs"

subsection \<open>The declarations as lists of lines\<close>


subsection \<open>An example file\<close>

text \<open>
  A file of 500 lines: 400 empty lines, a struct of three lines and 97 empty lines; the
  state of the files with only this file in it; and the state after \<open>refactor_file\<close>.
\<close>

definition split_demo :: string where
  "split_demo =
     replicate 400 (CHR ''\<newline>'') @ ''public struct A\<newline>{\<newline>}\<newline>'' @
     replicate 97 (CHR ''\<newline>'')"

definition split_demo_state :: fstate where
  "split_demo_state = \<lparr> files = [''Foo.cs'' \<mapsto> split_demo], log = [] \<rparr>"

definition split_demo_result :: fstate where
  "split_demo_result =
     \<lparr> files = [''Foo.cs'' \<mapsto> replicate 400 (CHR ''\<newline>''),
                 ''Foo.cs.backup'' \<mapsto> split_demo,
                 ''FooDataStructures.cs'' \<mapsto>
                   ''// REFACTORED: Data Structures\<newline>// Extracted from Foo.cs for better separation of concerns\<newline>\<newline>\<newline>namespace ProjectChimera\<newline>{\<newline>public struct A\<newline>{\<newline>}\<newline>\<newline>}\<newline>''],
       log = [Written ''FooDataStructures.cs''
                ''// REFACTORED: Data Structures\<newline>// Extracted from Foo.cs for better separation of concerns\<newline>\<newline>\<newline>namespace ProjectChimera\<newline>{\<newline>public struct A\<newline>{\<newline>}\<newline>\<newline>}\<newline>'',
              Copied ''Foo.cs'' ''Foo.cs.backup'',
              Written ''Foo.cs'' (replicate 400 (CHR ''\<newline>''))] \<rparr>"

section \<open>The matcher decides the language of a pattern\<close>

lemma nullable_lang: "nullable r \<longleftrightarrow> [] \<in> lang r"
  by (induction r) (auto intro: star_empty)

lemma lang_seq: "lang (seq r s) = lang (Seq r s)"
  by (induction r s rule: seq.induct) auto

lemma lang_alt: "lang (alt r s) = lang (Alt r s)"
  by (induction r s rule: alt.induct) auto

lemma star_first_char:
  "x \<in> star L \<Longrightarrow> x = a # w \<Longrightarrow> \<exists>u v. w = u @ v \<and> a # u \<in> L \<and> v \<in> star L"
proof (induction arbitrary: w rule: star.induct)
  case star_empty
  then show ?case by simp
next
  case (star_more u v)
  show ?case
  proof (cases u)
    case Nil
    with star_more show ?thesis by simp
  next
    case (Cons b u')
    with star_more.prems have "b = a" and "w = u' @ v" by simp_all
    with Cons star_more.hyps show ?thesis by blast
  qed
qed

lemma star_cons:
  "a # w \<in> star L \<longleftrightarrow> (\<exists>u v. w = u @ v \<and> a # u \<in> L \<and> v \<in> star L)"
proof
  assume "a # w \<in> star L"
  then show "\<exists>u v. w = u @ v \<and> a # u \<in> L \<and> v \<in> star L"
    by (rule star_first_char) simp
next
  assume "\<exists>u v. w = u @ v \<and> a # u \<in> L \<and> v \<in> star L"
  then obtain u v where "w = u @ v" "a # u \<in> L" "v \<in> star L" by blast
  then have "(a # u) @ v \<in> star L" by (intro star_more)
  with \<open>w = u @ v\<close> show "a # w \<in> star L" by simp
qed

lemma lang_deriv: "lang (deriv a r) = {w. a # w \<in> lang r}"
proof (induction r)
  case (Seq r s)
  show ?case
  proof (cases "nullable r")
    case True
    then have "[] \<in> lang r" by (simp add: nullable_lang)
    with True Seq show ?thesis
      by (auto simp: lang_alt lang_seq Cons_eq_append_conv) 
  next
    case False
    then have "[] \<notin> lang r" by (simp add: nullable_lang)
    with False Seq show ?thesis
      by (auto simp: lang_seq Cons_eq_append_conv)
  qed
next
  case (Star r)
  then show ?case by (auto simp: lang_seq star_cons)
qed (auto simp: lang_alt)

lemma re_match_lang: "re_match r s \<longleftrightarrow> (\<exists>p\<in>lang r. prefix p s)"
proof (induction s arbitrary: r)
  case Nil
  then show ?case by (simp add: nullable_lang)
next
  case (Cons c cs)
  have "(\<exists>p\<in>lang r. prefix p (c # cs)) \<longleftrightarrow>
        [] \<in> lang r \<or> (\<exists>q. c # q \<in> lang r \<and> prefix q cs)"
    by (auto simp: prefix_Cons)
  with Cons [of "deriv c r"] show ?case
    by (simp add: nullable_lang lang_deriv)
qed

lemma re_search_lang: "re_search r s \<longleftrightarrow> (\<exists>p\<in>lang r. sublist p s)"
proof (induction s)
  case Nil
  then show ?case by (simp add: nullable_lang)
next
  case (Cons c cs)
  then show ?case
    by (simp only: re_search.simps re_match_lang sublist_Cons_right) blast
qed

lemma lang_Str: "lang (Str s) = {s}"
  by (induction s) (auto simp: Str_def)

section \<open>Properties of the size classifier\<close>

lemma below_threshold:
  assumes b: "0 < b" "b < 2 ^ 54" and k: "0 < k"
    and less: "real_of_int a / real_of_int b < 1 / real_of_int k"
  shows "real_of_int a / real_of_int b < 1 / real_of_int k - 1 / (real_of_int k * 2 ^ 54)"
proof -
  have bp: "0 < real_of_int b" and kp: "0 < real_of_int k" using b k by simp_all
  from less bp kp have "real_of_int a * real_of_int k < real_of_int b"
    by (simp add: field_simps)
  then have "real_of_int (a * k) < real_of_int b" by simp
  then have "a * k < b" by (simp only: of_int_less_iff)
  then have "a * k + 1 \<le> b" by simp
  then have "real_of_int (a * k + 1) \<le> real_of_int b" by (simp only: of_int_le_iff)
  then have ak: "real_of_int a * real_of_int k + 1 \<le> real_of_int b" by simp
  from b have b54: "real_of_int b < 2 ^ 54" by simp
  have "real_of_int a * real_of_int k * 2 ^ 54 \<le> (real_of_int b - 1) * 2 ^ 54"
    using ak by simp
  also have "\<dots> < real_of_int b * 2 ^ 54 - real_of_int b"
    using b54 by (simp add: algebra_simps)
  finally have "real_of_int a * real_of_int k * 2 ^ 54 < real_of_int b * 2 ^ 54 - real_of_int b" .
  with bp kp show ?thesis by (simp add: field_simps)
qed


lemma double_at_least_exact:
  assumes "0 < limit" "limit < 2 ^ 54"
  shows "double_at_least (real_of_int a / real_of_int limit) e \<longleftrightarrow>
         1 / 2 ^ e \<le> real_of_int a / real_of_int limit"
proof
  assume h: "1 / 2 ^ e \<le> real_of_int a / real_of_int limit"
  have "0 < 1 / (2::real) ^ (e + 54)" by simp
  with h show "double_at_least (real_of_int a / real_of_int limit) e"
    unfolding double_at_least_def by linarith
next
  assume d: "double_at_least (real_of_int a / real_of_int limit) e"
  show "1 / 2 ^ e \<le> real_of_int a / real_of_int limit"
  proof (rule ccontr)
    assume "\<not> 1 / 2 ^ e \<le> real_of_int a / real_of_int limit"
    then have "real_of_int a / real_of_int limit < 1 / real_of_int (2 ^ e)" by simp
    moreover have "(0::int) < 2 ^ e" by simp
    ultimately have "real_of_int a / real_of_int limit <
        1 / real_of_int (2 ^ e) - 1 / (real_of_int (2 ^ e) * 2 ^ 54)"
      using assms by (intro below_threshold)
    then have "real_of_int a / real_of_int limit < 1 / 2 ^ e - 1 / 2 ^ (e + 54)"
      by (simp add: power_add)
    with d show False unfolding double_at_least_def by linarith
  qed
qed

lemma double_at_least_above: "1 / 2 ^ e \<le> q \<Longrightarrow> double_at_least q e"
proof -
  assume h: "1 / 2 ^ e \<le> q"
  have "0 < 1 / (2::real) ^ (e + 54)" by simp
  with h show ?thesis unfolding double_at_least_def by linarith
qed

lemma double_at_least_mono: "q \<le> q' \<Longrightarrow> double_at_least q e \<Longrightarrow> double_at_least q' e"
  unfolding double_at_least_def by linarith

lemma sum_below_difference:
  fixes a m t c T :: real
  shows "a \<le> m \<Longrightarrow> m < t \<Longrightarrow> c \<le> t \<Longrightarrow> T = 4 * t \<Longrightarrow> 0 < t \<Longrightarrow> m + a < T - c"
  by linarith

lemma below_overflow: "(2::real) ^ 1000 + 2 ^ 54 < 2 ^ 1024 - 2 ^ 970"
proof (rule sum_below_difference)
  show "(2::real) ^ 54 \<le> 2 ^ 1000" by (rule power_increasing) simp_all
  show "(2::real) ^ 1000 < 2 ^ 1022" by (rule power_strict_increasing) simp_all
  show "(2::real) ^ 970 \<le> 2 ^ 1022" by (rule power_increasing) simp_all
  show "(2::real) ^ 1024 = 4 * 2 ^ 1022" using power_add [of "2::real" 2 1022] by simp
  show "(0::real) < 2 ^ 1022" by (rule zero_less_power) simp
qed

lemma no_overflow:
  assumes "limit \<noteq> 0" "\<bar>line_count\<bar> < 2 ^ 1000"
  shows "\<not> double_overflows (excess_ratio line_count limit)"
proof -
  have "1 \<le> \<bar>limit\<bar>" using assms(1) by simp
  then have "real_of_int 1 \<le> real_of_int \<bar>limit\<bar>" by (simp only: of_int_le_iff)
  then have l1: "1 \<le> \<bar>real_of_int limit\<bar>" by simp
  have lc: "\<bar>real_of_int line_count\<bar> < 2 ^ 1000"
  proof -
    from assms(2) have "real_of_int \<bar>line_count\<bar> < 2 ^ 1000" by simp
    then show ?thesis by simp
  qed
  have e: "excess_ratio line_count limit = real_of_int line_count / real_of_int limit - 1"
    using assms(1) by (simp add: excess_ratio_def diff_divide_distrib)
  have "\<bar>real_of_int line_count\<bar> / \<bar>real_of_int limit\<bar> \<le> \<bar>real_of_int line_count\<bar> / 1"
    using l1 by (intro frac_le) simp_all
  then have q: "\<bar>real_of_int line_count / real_of_int limit\<bar> \<le> \<bar>real_of_int line_count\<bar>"
    by simp
  have "\<bar>excess_ratio line_count limit\<bar> \<le> \<bar>real_of_int line_count / real_of_int limit\<bar> + 1"
    unfolding e by linarith
  with q lc have "\<bar>excess_ratio line_count limit\<bar> < 2 ^ 1000 + 1" by linarith
  moreover have "(1::real) \<le> 2 ^ 54" by (rule one_le_power) simp
  ultimately have "\<bar>excess_ratio line_count limit\<bar> < 2 ^ 1000 + 2 ^ 54" by linarith
  from this below_overflow have "\<bar>excess_ratio line_count limit\<bar> < 2 ^ 1024 - 2 ^ 970"
    by (rule less_trans)
  then show ?thesis unfolding double_overflows_def by (simp only: not_le)
qed

lemma tiers_of_comparisons:
  fixes r r' :: real and cs cs' :: "py_error + severity"
  assumes "cs = (if a0 then Inr CRITICAL else if a1 then Inr HIGH
                 else if a2 then Inr MEDIUM else Inr LOW)"
    and "cs' = (if b0 then Inr CRITICAL else if b1 then Inr HIGH
                else if b2 then Inr MEDIUM else Inr LOW)"
    and "1 \<le> r \<Longrightarrow> a0" and "1 / 2 \<le> r \<Longrightarrow> a1" and "1 / 4 \<le> r \<Longrightarrow> a2"
    and "r \<le> r' \<Longrightarrow> a0 \<Longrightarrow> b0" and "r \<le> r' \<Longrightarrow> a1 \<Longrightarrow> b1" and "r \<le> r' \<Longrightarrow> a2 \<Longrightarrow> b2"
    and "B \<Longrightarrow> a0 = (1 \<le> r) \<and> a1 = (1 / 2 \<le> r) \<and> a2 = (1 / 4 \<le> r)"
  shows "(\<exists>s. cs = Inr s) \<and>
         (1 \<le> r \<longrightarrow> cs = Inr CRITICAL) \<and>
         (1 / 2 \<le> r \<longrightarrow> cs = Inr CRITICAL \<or> cs = Inr HIGH) \<and>
         (1 / 4 \<le> r \<longrightarrow> cs \<noteq> Inr LOW) \<and>
         (B \<longrightarrow> (1 / 2 \<le> r \<and> r < 1 \<longrightarrow> cs = Inr HIGH) \<and>
                 (1 / 4 \<le> r \<and> r < 1 / 2 \<longrightarrow> cs = Inr MEDIUM) \<and>
                 (r < 1 / 4 \<longrightarrow> cs = Inr LOW)) \<and>
         (\<forall>s s'. cs = Inr s \<and> cs' = Inr s' \<and> r \<le> r' \<longrightarrow> severity_rank s \<le> severity_rank s')"
proof (intro conjI)
  show "\<exists>s. cs = Inr s" using assms(1) by simp
  show "1 \<le> r \<longrightarrow> cs = Inr CRITICAL" using assms(1,3) by simp
  show "1 / 2 \<le> r \<longrightarrow> cs = Inr CRITICAL \<or> cs = Inr HIGH" using assms(1,4) by simp
  show "1 / 4 \<le> r \<longrightarrow> cs \<noteq> Inr LOW" using assms(1,5) by simp
  show "B \<longrightarrow> (1 / 2 \<le> r \<and> r < 1 \<longrightarrow> cs = Inr HIGH) \<and>
                 (1 / 4 \<le> r \<and> r < 1 / 2 \<longrightarrow> cs = Inr MEDIUM) \<and>
                 (r < 1 / 4 \<longrightarrow> cs = Inr LOW)"
  proof
    assume B
    from assms(9) [OF this] have a: "a0 = (1 \<le> r)" "a1 = (1 / 2 \<le> r)" "a2 = (1 / 4 \<le> r)"
      by simp_all
    show "(1 / 2 \<le> r \<and> r < 1 \<longrightarrow> cs = Inr HIGH) \<and>
                 (1 / 4 \<le> r \<and> r < 1 / 2 \<longrightarrow> cs = Inr MEDIUM) \<and>
                 (r < 1 / 4 \<longrightarrow> cs = Inr LOW)"
    proof (intro conjI impI)
      assume "1 / 2 \<le> r \<and> r < 1"
      then have "\<not> a0" "a1" unfolding a by linarith+
      then show "cs = Inr HIGH" unfolding assms(1) by simp
    next
      assume "1 / 4 \<le> r \<and> r < 1 / 2"
      then have "\<not> a0" "\<not> a1" "a2" unfolding a by linarith+
      then show "cs = Inr MEDIUM" unfolding assms(1) by simp
    next
      assume "r < 1 / 4"
      then have "\<not> a0" "\<not> a1" "\<not> a2" unfolding a by linarith+
      then show "cs = Inr LOW" unfolding assms(1) by simp
    qed
  qed
  show "\<forall>s s'. cs = Inr s \<and> cs' = Inr s' \<and> r \<le> r' \<longrightarrow> severity_rank s \<le> severity_rank s'"
  proof (intro allI impI, elim conjE)
    fix s s' assume s: "cs = Inr s" and s': "cs' = Inr s'" and le: "r \<le> r'"
    note m = assms(6) [OF le] assms(7) [OF le] assms(8) [OF le]
    have "a0 \<longrightarrow> b0" "a1 \<longrightarrow> b1" "a2 \<longrightarrow> b2" using m by blast+
    with s s' assms(1,2) show "severity_rank s \<le> severity_rank s'"
      by (auto simp: severity_rank_def split: if_splits)
  qed
qed

text \<open>
  Claim C7. For a budget other than 0 and a line count below \<open>2^1000\<close> in absolute
  value, \<open>calculate_severity\<close> returns a tier, and in terms of the exact ratio
  \<open>(count - budget) / budget\<close>: a ratio of at least 1 gives CRITICAL, a ratio of at
  least 1/2 gives HIGH or CRITICAL, a ratio of at least 1/4 never gives LOW, so the
  boundary ratios 1, 1/2 and 1/4 map to the documented tier and not to a lower one; and of
  two calls the one with the larger ratio never gets the lower tier. For a budget from 1
  to below \<open>2^54\<close>, which covers the budgets 500 and 600 of the script, the tier is
  exactly the documented one: HIGH for a ratio from 1/2 to below 1, MEDIUM from 1/4 to
  below 1/2, LOW below 1/4. (A zero budget raises \<open>ZeroDivisionError\<close>, a quotient
  beyond the doubles \<open>OverflowError\<close>; for a budget of \<open>2^54\<close> or more a ratio just
  below a boundary can be rounded up to it.)
\<close>

theorem calculate_severity_tiers:
  assumes "limit \<noteq> 0" "\<bar>line_count\<bar> < 2 ^ 1000"
    and "limit' \<noteq> 0" "\<bar>line_count'\<bar> < 2 ^ 1000"
  shows "(\<exists>s. calculate_severity line_count limit = Inr s) \<and>
         (1 \<le> real_of_int (line_count - limit) / real_of_int limit \<longrightarrow>
            calculate_severity line_count limit = Inr CRITICAL) \<and>
         (1 / 2 \<le> real_of_int (line_count - limit) / real_of_int limit \<longrightarrow>
            calculate_severity line_count limit = Inr CRITICAL \<or>
            calculate_severity line_count limit = Inr HIGH) \<and>
         (1 / 4 \<le> real_of_int (line_count - limit) / real_of_int limit \<longrightarrow>
            calculate_severity line_count limit \<noteq> Inr LOW) \<and>
         (0 < limit \<and> limit < 2 ^ 54 \<longrightarrow>
            (1 / 2 \<le> real_of_int (line_count - limit) / real_of_int limit \<and>
             real_of_int (line_count - limit) / real_of_int limit < 1 \<longrightarrow>
               calculate_severity line_count limit = Inr HIGH) \<and>
            (1 / 4 \<le> real_of_int (line_count - limit) / real_of_int limit \<and>
             real_of_int (line_count - limit) / real_of_int limit < 1 / 2 \<longrightarrow>
               calculate_severity line_count limit = Inr MEDIUM) \<and>
            (real_of_int (line_count - limit) / real_of_int limit < 1 / 4 \<longrightarrow>
               calculate_severity line_count limit = Inr LOW)) \<and>
         (\<forall>s s'. calculate_severity line_count limit = Inr s \<and>
                 calculate_severity line_count' limit' = Inr s' \<and>
                 real_of_int (line_count - limit) / real_of_int limit \<le>
                 real_of_int (line_count' - limit') / real_of_int limit' \<longrightarrow>
                 severity_rank s \<le> severity_rank s')"
proof -
  let ?r = "real_of_int (line_count - limit) / real_of_int limit"
  let ?r' = "real_of_int (line_count' - limit') / real_of_int limit'"
  have c: "calculate_severity line_count limit =
     (if double_at_least ?r 0 then Inr CRITICAL else if double_at_least ?r 1 then Inr HIGH
      else if double_at_least ?r 2 then Inr MEDIUM else Inr LOW)"
    using assms(1) no_overflow [OF assms(1,2)]
    by (simp add: calculate_severity_def excess_ratio_def)
  have c': "calculate_severity line_count' limit' =
     (if double_at_least ?r' 0 then Inr CRITICAL else if double_at_least ?r' 1 then Inr HIGH
      else if double_at_least ?r' 2 then Inr MEDIUM else Inr LOW)"
    using assms(3) no_overflow [OF assms(3,4)]
    by (simp add: calculate_severity_def excess_ratio_def)
  have x: "double_at_least ?r 0 = (1 \<le> ?r) \<and> double_at_least ?r 1 = (1 / 2 \<le> ?r) \<and>
           double_at_least ?r 2 = (1 / 4 \<le> ?r)" if "0 < limit \<and> limit < 2 ^ 54"
    using double_at_least_exact [of limit "line_count - limit" 0]
      double_at_least_exact [of limit "line_count - limit" 1]
      double_at_least_exact [of limit "line_count - limit" 2] that
    by simp
  have u0: "double_at_least ?r 0" if "1 \<le> ?r" using that by (intro double_at_least_above) simp
  have u1: "double_at_least ?r 1" if "1 / 2 \<le> ?r" using that by (intro double_at_least_above) simp
  have u2: "double_at_least ?r 2" if "1 / 4 \<le> ?r" using that by (intro double_at_least_above) simp
  show ?thesis
    by (rule tiers_of_comparisons [OF c c' u0 u1 u2 double_at_least_mono double_at_least_mono
          double_at_least_mono x])
qed

theorem calculate_severity_tiers_witness:
  "calculate_severity 750 600 = Inr MEDIUM \<and> calculate_severity 900 600 = Inr HIGH \<and>
   calculate_severity 1200 600 = Inr CRITICAL \<and> calculate_severity 1100 600 = Inr HIGH \<and>
   calculate_severity 601 600 = Inr LOW \<and> calculate_severity 625 500 = Inr MEDIUM \<and>
   calculate_severity 750 500 = Inr HIGH \<and> calculate_severity 1000 500 = Inr CRITICAL \<and>
   calculate_severity 501 500 = Inr LOW \<and>
   severity_rank MEDIUM \<le> severity_rank HIGH"
proof -
  have b6: "(600::int) \<noteq> 0" and b5: "(500::int) \<noteq> 0" by simp_all
  have k: "(0::int) < 600 \<and> (600::int) < 2 ^ 54" "(0::int) < 500 \<and> (500::int) < 2 ^ 54"
    by simp_all
  have n: "\<bar>c\<bar> < 2 ^ 1000" if "\<bar>c\<bar> < 2 ^ 11" for c :: int
  proof -
    have "(2::int) ^ 11 \<le> 2 ^ 1000" by (rule power_increasing) simp_all
    with that show ?thesis by linarith
  qed
  have n750: "\<bar>750::int\<bar> < 2 ^ 1000" and n900: "\<bar>900::int\<bar> < 2 ^ 1000"
    and n1200: "\<bar>1200::int\<bar> < 2 ^ 1000" and n1100: "\<bar>1100::int\<bar> < 2 ^ 1000"
    and n601: "\<bar>601::int\<bar> < 2 ^ 1000" and n625: "\<bar>625::int\<bar> < 2 ^ 1000"
    and n1000: "\<bar>1000::int\<bar> < 2 ^ 1000" and n501: "\<bar>501::int\<bar> < 2 ^ 1000"
    by (rule n, simp)+
  note a = calculate_severity_tiers [OF b6 n750 b5 n750]
  note b = calculate_severity_tiers [OF b6 n900 b5 n750]
  note c = calculate_severity_tiers [OF b6 n1200 b5 n750]
  note d = calculate_severity_tiers [OF b6 n1100 b5 n750]
  note e = calculate_severity_tiers [OF b6 n601 b5 n750]
  note f = calculate_severity_tiers [OF b5 n625 b5 n750]
  note g = calculate_severity_tiers [OF b5 n750 b5 n750]
  note h = calculate_severity_tiers [OF b5 n1000 b5 n750]
  note i = calculate_severity_tiers [OF b5 n501 b5 n750]
  have 1: "calculate_severity 750 600 = Inr MEDIUM" using a k by simp
  have 2: "calculate_severity 900 600 = Inr HIGH" using b k by simp
  have 3: "calculate_severity 1200 600 = Inr CRITICAL" using c by simp
  have 4: "calculate_severity 1100 600 = Inr HIGH" using d k by simp
  have 5: "calculate_severity 601 600 = Inr LOW" using e k by simp
  have 6: "calculate_severity 625 500 = Inr MEDIUM" using f k by simp
  have 7: "calculate_severity 750 500 = Inr HIGH" using g k by simp
  have 8: "calculate_severity 1000 500 = Inr CRITICAL" using h by simp
  have 9: "calculate_severity 501 500 = Inr LOW" using i k by simp
  have "severity_rank MEDIUM \<le> severity_rank HIGH" using a 1 7 by simp
  with 1 2 3 4 5 6 7 8 9 show ?thesis by (simp only: simp_thms)
qed

text \<open>
  Outside these bounds the double decides: the ratio \<open>(2^60 - 1) / 2^60\<close> is below 1 and
  is rounded to 1.0, a zero budget raises \<open>ZeroDivisionError\<close>, and a quotient of
  \<open>2^1024\<close> raises \<open>OverflowError\<close>.
\<close>

lemma calculate_severity_rounds:
  "calculate_severity (2 ^ 61 - 1) (2 ^ 60) = Inr CRITICAL \<and>
   excess_ratio (2 ^ 61 - 1) (2 ^ 60) < 1 \<and>
   calculate_severity 1 0 = Inl ZeroDivisionError \<and>
   calculate_severity (2 ^ 1024 + 1) 1 = Inl OverflowError"
proof -
  have r: "excess_ratio (2 ^ 61 - 1) (2 ^ 60) = 1 - 1 / 2 ^ 60"
    by (simp add: excess_ratio_def field_simps)
  have "(1::real) / 2 ^ 60 \<le> 1 / 2 ^ 54" by (intro divide_left_mono power_increasing) simp_all
  then have a: "double_at_least (excess_ratio (2 ^ 61 - 1) (2 ^ 60)) 0"
    unfolding r double_at_least_def by simp
  have "(1::real) - 1 / 2 ^ 60 < 2 ^ 1000 + 2 ^ 54"
  proof -
    have "(1::real) \<le> 2 ^ 1000" by (rule one_le_power) simp
    moreover have "(0::real) < 1 / 2 ^ 60" "(0::real) < 2 ^ 54" by simp_all
    ultimately show ?thesis by linarith
  qed
  from this below_overflow have "(1::real) - 1 / 2 ^ 60 < 2 ^ 1024 - 2 ^ 970" by (rule less_trans)
  moreover have "(0::real) \<le> 1 - 1 / 2 ^ 60" by simp
  ultimately have o: "\<not> double_overflows (excess_ratio (2 ^ 61 - 1) (2 ^ 60))"
    unfolding r double_overflows_def by (simp only: abs_of_nonneg not_le)
  have 1: "calculate_severity (2 ^ 61 - 1) (2 ^ 60) = Inr CRITICAL"
    using a o by (simp add: calculate_severity_def)
  have 2: "excess_ratio (2 ^ 61 - 1) (2 ^ 60) < 1" unfolding r by simp
  have 3: "calculate_severity 1 0 = Inl ZeroDivisionError" by (simp add: calculate_severity_def)
  have q: "excess_ratio (2 ^ 1024 + 1) 1 = 2 ^ 1024" by (simp add: excess_ratio_def)
  have "(2::real) ^ 1024 - 2 ^ 970 \<le> 2 ^ 1024" by simp
  then have "double_overflows (excess_ratio (2 ^ 1024 + 1) 1)"
    unfolding q double_overflows_def by (simp only: abs_power2 abs_numeral abs_of_nonneg power_abs)
  then have 4: "calculate_severity (2 ^ 1024 + 1) 1 = Inl OverflowError"
    by (simp add: calculate_severity_def)
  from 1 2 3 4 show ?thesis by (simp only: simp_thms)
qed

lemma severity_counts_sort:
  "severity_counts (sort_violations vs) s = severity_counts vs s"
proof -
  have "mset (sort_violations vs) = mset vs"
    by (simp add: sort_violations_def)
  then have "mset (filter (\<lambda>v. sv_severity v = s) (sort_violations vs)) =
             mset (filter (\<lambda>v. sv_severity v = s) vs)"
    by (simp only: mset_filter)
  then show ?thesis
    unfolding severity_counts_def by (metis size_mset)
qed

lemma severity_counts_pos:
  "0 < severity_counts vs s \<longleftrightarrow> list_ex (\<lambda>v. sv_severity v = s) vs"
  by (induction vs) (auto simp: severity_counts_def)

lemma sorted_counts_pos:
  "0 < severity_counts (sort_violations vs) s \<longleftrightarrow> list_ex (\<lambda>v. sv_severity v = s) vs"
  by (simp only: severity_counts_sort severity_counts_pos)

lemma length_sort_violations: "length (sort_violations vs) = length vs"
  by (simp add: sort_violations_def)

text \<open>
  Claim C9. In the size check, a CRITICAL finding makes the exit status 1 whatever the
  number of findings; without a CRITICAL finding the exit status is 0, and with at most
  110 findings (the ceiling of the script) the run ends on the "commit allowed" report of
  their number.
\<close>

theorem file_size_main_exit:
  "(list_ex (\<lambda>v. sv_severity v = CRITICAL) vs \<longrightarrow> fst (file_size_main vs) = 1) \<and>
   (\<not> list_ex (\<lambda>v. sv_severity v = CRITICAL) vs \<longrightarrow> fst (file_size_main vs) = 0) \<and>
   (\<not> list_ex (\<lambda>v. sv_severity v = CRITICAL) vs \<and> vs \<noteq> [] \<and> length vs \<le> 110 \<longrightarrow>
      file_size_main vs = (0, CommitAllowed (length vs)))"
proof -
  have "vs = [] \<Longrightarrow> \<not> list_ex (\<lambda>v. sv_severity v = CRITICAL) vs" by simp
  then show ?thesis
    by (auto simp: file_size_main_def Let_def sorted_counts_pos length_sort_violations)
qed

theorem file_size_main_exit_witness:
  "fst (file_size_main
      [\<lparr> sv_file = ''Assets/ProjectChimera/Core/A.cs'', sv_lines = 510, sv_limit = 500,
         sv_excess = 10, sv_system = ''Core'', sv_severity = LOW \<rparr>,
       \<lparr> sv_file = ''Assets/ProjectChimera/Core/B.cs'', sv_lines = 1000, sv_limit = 500,
         sv_excess = 500, sv_system = ''Core'', sv_severity = CRITICAL \<rparr>]) = 1 \<and>
   file_size_main
      [\<lparr> sv_file = ''Assets/ProjectChimera/Core/A.cs'', sv_lines = 510, sv_limit = 500,
         sv_excess = 10, sv_system = ''Core'', sv_severity = LOW \<rparr>] = (0, CommitAllowed 1)"
  using file_size_main_exit
          [of "[\<lparr> sv_file = ''Assets/ProjectChimera/Core/A.cs'', sv_lines = 510, sv_limit = 500,
                  sv_excess = 10, sv_system = ''Core'', sv_severity = LOW \<rparr>,
                \<lparr> sv_file = ''Assets/ProjectChimera/Core/B.cs'', sv_lines = 1000,
                  sv_limit = 500, sv_excess = 500, sv_system = ''Core'',
                  sv_severity = CRITICAL \<rparr>]"]
        file_size_main_exit
          [of "[\<lparr> sv_file = ''Assets/ProjectChimera/Core/A.cs'', sv_lines = 510, sv_limit = 500,
                  sv_excess = 10, sv_system = ''Core'', sv_severity = LOW \<rparr>]"]
  by simp

section \<open>Properties of the pattern checkers\<close>

lemma report_matches_filter:
  "report_matches mk text ps = map mk (filter (\<lambda>p. re_search p text) ps)"
  by (induction ps) simp_all

lemma if_nil_or: "x = [] \<or> x = r \<Longrightarrow> (if c then [] else x) = [] \<or> (if c then [] else x) = r"
  by simp

lemma anti_pattern_line_cases:
  "anti_pattern_line file_path i line = [] \<or>
   anti_pattern_line file_path i line =
     report_matches (\<lambda>p. \<lparr> v_file = file_path, v_line = i, v_pattern = p,
                             v_content = code_part (strip line) \<rparr>)
       (code_part (strip line)) FORBIDDEN_PATTERNS"
  unfolding anti_pattern_line_def Let_def
  by (intro if_nil_or) (rule disjI2, rule refl)










lemma not_space_slash: "\<not> isspace (CHR ''/'')"
  by (simp add: isspace_def)

lemma lstrip_marker: "lstrip (code @ ''//'' @ c) = lstrip code @ ''//'' @ c"
proof (cases "\<forall>x\<in>set code. isspace x")
  case True
  then have "dropWhile isspace code = []" by simp
  with True show ?thesis by (simp add: lstrip_def dropWhile_append not_space_slash)
next
  case False
  then show ?thesis by (auto simp: lstrip_def dropWhile_append)
qed

lemma rstrip_marker: "rstrip (a @ ''//'' @ c) = a @ ''//'' @ rstrip c"
proof (cases "\<forall>x\<in>set c. isspace x")
  case True
  then have "dropWhile isspace (rev c) = []" by simp
  with True show ?thesis by (simp add: rstrip_def dropWhile_append not_space_slash)
next
  case False
  then show ?thesis by (auto simp: rstrip_def dropWhile_append)
qed

lemma strip_marker: "strip (code @ ''//'' @ c) = lstrip code @ ''//'' @ rstrip c"
  by (simp only: strip_def lstrip_marker rstrip_marker)

lemma prefix_append_long:
  "length s \<le> length y \<Longrightarrow> prefix s (y @ r) \<longleftrightarrow> prefix s y"
  by (auto simp: prefix_append)

lemma split_first_marker:
  "sep \<noteq> [] \<Longrightarrow> split_first sep (x @ sep @ r) = split_first sep (x @ sep)"
proof (induction x)
  case Nil
  then show ?case by (cases sep) simp_all
next
  case (Cons c x)
  have "prefix sep ((c # x) @ sep @ r) = prefix sep ((c # x) @ sep)"
    using prefix_append_long [of sep "(c # x) @ sep" r] by simp
  with Cons show ?case by simp
qed

lemma contains_marker: "sep \<noteq> [] \<Longrightarrow> contains sep (x @ sep @ r)"
proof (induction x)
  case Nil
  then show ?case by (cases sep) simp_all
next
  case (Cons c x)
  then show ?case by simp
qed

lemma code_part_marker:
  "code_part (a @ ''//'' @ r) = strip (split_first ''//'' (a @ ''//''))"
proof -
  have "contains ''//'' (a @ ''//'' @ r)" by (rule contains_marker) simp
  moreover have "split_first ''//'' (a @ ''//'' @ r) = split_first ''//'' (a @ ''//'')"
    by (rule split_first_marker) simp
  ultimately show ?thesis by (simp only: code_part_def if_True)
qed

lemma comment_only_marker:
  "(prefix ''//'' (a @ ''//'' @ r) \<or> prefix ''///'' (a @ ''//'' @ r) \<or> prefix ''*'' (a @ ''//'' @ r)) =
   (prefix ''//'' (a @ ''//'') \<or> prefix ''*'' (a @ ''//''))"
proof -
  have 1: "prefix ''//'' (a @ ''//'' @ r) = prefix ''//'' (a @ ''//'')"
    using prefix_append_long [of "''//''" "a @ ''//''" r] by simp
  have 2: "prefix ''*'' (a @ ''//'' @ r) = prefix ''*'' (a @ ''//'')"
    using prefix_append_long [of "''*''" "a @ ''//''" r] by simp
  have 3: "prefix ''///'' (a @ ''//'' @ r) \<Longrightarrow> prefix ''//'' (a @ ''//'' @ r)"
    by (auto simp: prefix_def)
  from 1 2 3 show ?thesis by blast
qed

lemma anti_pattern_line_comment_free:
  "anti_pattern_line file_path i (code @ ''//'' @ comment) =
   anti_pattern_line file_path i (code @ ''//'')"
proof -
  have s1: "strip (code @ ''//'' @ comment) = lstrip code @ ''//'' @ rstrip comment"
    by (rule strip_marker)
  have s2: "strip (code @ ''//'') = lstrip code @ ''//'' @ []"
    using strip_marker [of code "[]"] by (simp add: rstrip_def)
  have c: "code_part (lstrip code @ ''//'' @ rstrip comment) = code_part (lstrip code @ ''//'' @ [])"
    by (simp only: code_part_marker)
  have p: "(prefix ''//'' (lstrip code @ ''//'' @ rstrip comment) \<or>
            prefix ''///'' (lstrip code @ ''//'' @ rstrip comment) \<or>
            prefix ''*'' (lstrip code @ ''//'' @ rstrip comment)) =
           (prefix ''//'' (lstrip code @ ''//'' @ []) \<or>
            prefix ''///'' (lstrip code @ ''//'' @ []) \<or>
            prefix ''*'' (lstrip code @ ''//'' @ []))"
    by (simp only: comment_only_marker)
  show ?thesis
    unfolding anti_pattern_line_def Let_def s1 s2 by (simp only: c p)
qed

lemma in_report_matches:
  "v \<in> set (report_matches mk text ps) \<Longrightarrow> \<exists>p\<in>set ps. v = mk p \<and> re_search p text"
  by (auto simp: report_matches_filter)

text \<open>
  In \<open>check_anti_patterns\<close> of \<open>run_quality_gates.py\<close> the text after the first inline
  comment marker is not tested: the violations of a line with a marker are those of the
  line cut after the marker, every violation reported is a pattern that matches the code
  text before the marker, and a line whose code text matches no pattern yields none.
\<close>

lemma comment_text_not_tested:
  "anti_pattern_line file_path i (code @ ''//'' @ comment) =
     anti_pattern_line file_path i (code @ ''//'') \<and>
   (\<forall>v\<in>set (anti_pattern_line file_path i line).
      v_pattern v \<in> set FORBIDDEN_PATTERNS \<and>
      re_search (v_pattern v) (code_part (strip line)) \<and>
      v_content v = code_part (strip line)) \<and>
   (list_all (\<lambda>p. \<not> re_search p (code_part (strip line))) FORBIDDEN_PATTERNS \<longrightarrow>
      anti_pattern_line file_path i line = [])"
proof (intro conjI)
  show "anti_pattern_line file_path i (code @ ''//'' @ comment) =
     anti_pattern_line file_path i (code @ ''//'')"
    by (rule anti_pattern_line_comment_free)
next
  show A: "\<forall>v\<in>set (anti_pattern_line file_path i line).
      v_pattern v \<in> set FORBIDDEN_PATTERNS \<and>
      re_search (v_pattern v) (code_part (strip line)) \<and>
      v_content v = code_part (strip line)"
    using anti_pattern_line_cases [of file_path i line]
    by (auto dest!: in_report_matches)
  show "list_all (\<lambda>p. \<not> re_search p (code_part (strip line))) FORBIDDEN_PATTERNS \<longrightarrow>
      anti_pattern_line file_path i line = []"
  proof
    assume n: "list_all (\<lambda>p. \<not> re_search p (code_part (strip line))) FORBIDDEN_PATTERNS"
    show "anti_pattern_line file_path i line = []"
    proof (cases "anti_pattern_line file_path i line")
      case Nil
      then show ?thesis .
    next
      case (Cons v vs)
      with A have "v_pattern v \<in> set FORBIDDEN_PATTERNS"
        and "re_search (v_pattern v) (code_part (strip line))" by simp_all
      with n show ?thesis by (simp add: list_all_iff)
    qed
  qed
qed

lemma comment_text_not_tested_example:
  "anti_pattern_line ''Assets/ProjectChimera/Systems/Foo.cs'' 7
     (''int x = 0; '' @ ''//'' @ '' Resources.Load(p)'' @ [CHR 0x0A]) = [] \<and>
   code_part (strip (''int x = 0; '' @ ''//'' @ '' Resources.Load(p)'' @ [CHR 0x0A])) = ''int x = 0;''"
proof -
  have c: "code_part (strip (''int x = 0; '' @ ''//'' @ '' Resources.Load(p)'' @ [CHR 0x0A])) =
      ''int x = 0;''"
    by code_simp
  have "list_all (\<lambda>p. \<not> re_search p ''int x = 0;'') FORBIDDEN_PATTERNS"
    by code_simp
  with c comment_text_not_tested
         [of "''Assets/ProjectChimera/Systems/Foo.cs''" 7 "[]" "[]"
             "''int x = 0; '' @ ''//'' @ '' Resources.Load(p)'' @ [CHR 0x0A]"]
  show ?thesis by simp
qed

text \<open>
  Claim C8 (a defect of the code). The dedicated checkers \<open>check_resources_load_violations\<close>,
  \<open>check_findobjectoftype_violations\<close> and \<open>check_debug_log_violations\<close> have no inline
  comment step: they skip a line that starts with a comment marker, and search the whole
  raw line otherwise. So a banned call that stands only in the comment after some code is
  reported by each of them, whereas \<open>check_anti_patterns\<close> reports nothing for the same
  line, and reports the same call when it stands in the code.
\<close>

theorem trailing_comment_reported:
  "length (resources_load_file ''Assets/ProjectChimera/Systems/Foo.cs''
      [''int x = 0; // Resources.Load(p)\<newline>'']) = 1 \<and>
   check_anti_patterns_file ''Assets/ProjectChimera/Systems/Foo.cs''
      [''int x = 0; // Resources.Load(p)\<newline>''] = [] \<and>
   length (check_anti_patterns_file ''Assets/ProjectChimera/Systems/Foo.cs''
      [''x = Resources.Load(p);\<newline>'']) = 1 \<and>
   length (findobjectoftype_file ''Assets/ProjectChimera/Systems/Foo.cs''
      [''int x = 0; // FindObjectOfType<Foo>()\<newline>'']) = 1 \<and>
   check_anti_patterns_file ''Assets/ProjectChimera/Systems/Foo.cs''
      [''int x = 0; // FindObjectOfType<Foo>()\<newline>''] = [] \<and>
   length (check_anti_patterns_file ''Assets/ProjectChimera/Systems/Foo.cs''
      [''x = FindObjectOfType<Foo>();\<newline>'']) = 1 \<and>
   length (debug_log_file ''Assets/ProjectChimera/Systems/Foo.cs''
      [''int x = 0; // Debug.Log(msg)\<newline>'']) = 1 \<and>
   check_anti_patterns_file ''Assets/ProjectChimera/Systems/Foo.cs''
      [''int x = 0; // Debug.Log(msg)\<newline>''] = [] \<and>
   length (check_anti_patterns_file ''Assets/ProjectChimera/Systems/Foo.cs''
      [''Debug.Log(msg);\<newline>'']) = 1"
  by code_simp

section \<open>Properties of the fallback context\<close>

lemma contains_set: "contains sub s \<Longrightarrow> set sub \<subseteq> set s"
proof (induction s)
  case Nil
  then show ?case by simp
next
  case (Cons c cs)
  from Cons.prems have "prefix sub (c # cs) \<or> contains sub cs" by simp
  then show ?case
  proof
    assume "prefix sub (c # cs)"
    then show ?thesis by (rule set_mono_prefix)
  next
    assume "contains sub cs"
    then have "set sub \<subseteq> set cs" by (rule Cons.IH)
    then show ?thesis by auto
  qed
qed

lemma lower_char_not_upper_M: "lower_char c \<noteq> CHR ''M''"
proof
  assume h: "lower_char c = CHR ''M''"
  then have "(of_char (lower_char c) :: nat) = 77" by simp
  then show False
    by (auto simp: lower_char_def Let_def split: if_splits)
qed

lemma upper_M_not_in_lower: "CHR ''M'' \<notin> set (lower s)"
proof
  assume "CHR ''M'' \<in> set (lower s)"
  then obtain c where "lower_char c = CHR ''M''" by (auto simp: lower_def)
  then show False by (simp add: lower_char_not_upper_M)
qed

lemma null_check_never_matches:
  "\<not> contains ''if (assetManager == null)'' (lower s)"
proof
  assume "contains ''if (assetManager == null)'' (lower s)"
  then have "set ''if (assetManager == null)'' \<subseteq> set (lower s)" by (rule contains_set)
  then have "CHR ''M'' \<in> set (lower s)" by simp
  then show False by (simp add: upper_M_not_in_lower)
qed

lemma any_in_effective:
  "any_in fallback_indicators (lower s) = any_in effective_fallback_indicators (lower s)"
  by (simp add: any_in_def fallback_indicators_def effective_fallback_indicators_def
      null_check_never_matches del: contains.simps)

text \<open>
  Claim C10. The indicator \<open>'if (assetManager == null)'\<close> is never contained in a context
  line, which is lowercased before the test while the indicator has an upper-case \<open>M\<close>; so
  \<open>_is_legitimate_fallback\<close> returns, for all lines, indices and contents, what it returns
  with that indicator removed from its list.
\<close>

theorem null_check_indicator_is_dead:
  "is_legitimate_fallback lines line_idx line_content =
     is_legitimate_fallback_with effective_fallback_indicators lines line_idx \<and>
   effective_fallback_indicators = remove1 ''if (assetManager == null)'' fallback_indicators \<and>
   \<not> contains ''if (assetManager == null)'' (lower (strip context_line))"
proof -
  have "is_legitimate_fallback lines line_idx line_content =
          is_legitimate_fallback_with effective_fallback_indicators lines line_idx"
    by (simp only: is_legitimate_fallback_def is_legitimate_fallback_with_def any_in_effective)
  moreover have "effective_fallback_indicators =
                   remove1 ''if (assetManager == null)'' fallback_indicators"
    by (simp add: effective_fallback_indicators_def fallback_indicators_def)
  ultimately show ?thesis
    by (simp only: null_check_never_matches not_False_eq_True simp_thms)
qed

theorem null_check_indicator_is_dead_witness:
  "is_legitimate_fallback
     [''if (assetManager == null)'', ''tex = Resources.Load(path);''] 1
     ''tex = Resources.Load(path);'' = False"
proof -
  have "is_legitimate_fallback_with effective_fallback_indicators
          [''if (assetManager == null)'', ''tex = Resources.Load(path);''] 1 = False"
    by code_simp
  with null_check_indicator_is_dead
         [of "[''if (assetManager == null)'', ''tex = Resources.Load(path);'']" 1
             "''tex = Resources.Load(path);''"]
  show ?thesis by simp
qed

text \<open>
  What the window of \<open>_is_legitimate_fallback\<close> is: the lines with an index from
  \<open>line_idx - 5\<close> (not below 0) up to, but not including, \<open>line_idx + 5\<close> (not beyond the
  last line).
\<close>

lemma set_py_range: "set (py_range a b) = {i. a \<le> i \<and> i < b}"
  by (auto simp: py_range_def)

lemma fallback_window:
  "is_legitimate_fallback lines line_idx line_content \<longleftrightarrow>
     (\<exists>i. max 0 (line_idx - 5) \<le> i \<and> i < min (int (length lines)) (line_idx + 5) \<and>
          any_in fallback_indicators (lower (strip (lines ! nat i))))"
  by (simp only: is_legitimate_fallback_def is_legitimate_fallback_with_def Let_def
      list_ex_iff set_py_range) blast

text \<open>
  Claim C3 (a defect of the code). The claim promises a window of 5 lines before and 5
  lines after the candidate and a test of the marker phrases without regard to case. On
  the first input the marker \<open>if (assetManager == null)\<close> stands on the line before the
  candidate, on the second the marker \<open>fallback mechanism\<close> stands on the fifth line after
  it: the window of the claim holds a marker both times, the function returns \<open>False\<close>
  both times, and the violation is reported instead of suppressed.
\<close>

theorem fallback_window_divergence:
  "spec_fallback_window fallback_indicators
     [''if (assetManager == null)'' @ [CHR 0x0A], ''  tex = Resources.Load(path);'' @ [CHR 0x0A]] 1 \<and>
   \<not> is_legitimate_fallback
     [''if (assetManager == null)'' @ [CHR 0x0A], ''  tex = Resources.Load(path);'' @ [CHR 0x0A]] 1
     ''tex = Resources.Load(path);'' \<and>
   map v_line (resources_load_file ''Assets/ProjectChimera/Gameplay/Foo.cs''
     [''if (assetManager == null)'' @ [CHR 0x0A], ''  tex = Resources.Load(path);'' @ [CHR 0x0A]])
     = [2] \<and>
   spec_fallback_window fallback_indicators
     [''tex = Resources.Load(path);'' @ [CHR 0x0A], [CHR 0x0A], [CHR 0x0A], [CHR 0x0A],
      [CHR 0x0A], ''// fallback mechanism'' @ [CHR 0x0A]] 0 \<and>
   \<not> is_legitimate_fallback
     [''tex = Resources.Load(path);'' @ [CHR 0x0A], [CHR 0x0A], [CHR 0x0A], [CHR 0x0A],
      [CHR 0x0A], ''// fallback mechanism'' @ [CHR 0x0A]] 0 ''tex = Resources.Load(path);'' \<and>
   map v_line (resources_load_file ''Assets/ProjectChimera/Gameplay/Foo.cs''
     [''tex = Resources.Load(path);'' @ [CHR 0x0A], [CHR 0x0A], [CHR 0x0A], [CHR 0x0A],
      [CHR 0x0A], ''// fallback mechanism'' @ [CHR 0x0A]]) = [1]"
  by code_simp

section \<open>Properties of the splitter\<close>

lemma brace_delta_append: "brace_delta (a @ b) = brace_delta a + brace_delta b"
  by (simp add: brace_delta_def count_char_def)

lemma brace_delta_concat: "brace_delta (concat ls) = sum_list (map brace_delta ls)"
  by (induction ls) (simp_all add: brace_delta_append, simp add: brace_delta_def count_char_def)

text \<open>
  The invariant of the extraction loop: every declaration appended so far is balanced,
  and inside a declaration \<open>brace_count\<close> is the sum over the lines captured so far.
\<close>

lemma extract_loop_balanced:
  "\<forall>d\<in>set ds. brace_delta d = 0 \<Longrightarrow> (ins \<Longrightarrow> bc = sum_list (map brace_delta cur)) \<Longrightarrow>
   d \<in> set (extract_loop ls ds cur bc ins) \<Longrightarrow> brace_delta d = 0"
proof (induction ls arbitrary: ds cur bc ins)
  case Nil
  then show ?case by simp
next
  case (Cons l ls)
  show ?case
  proof (cases "is_header l \<and> \<not> ins")
    case True
    with Cons.prems(3) have "d \<in> set (extract_loop ls ds [l] (brace_delta l) True)" by simp
    with Cons.IH [of ds True "brace_delta l" "[l]"] Cons.prems(1) show ?thesis by simp
  next
    case False
    show ?thesis
    proof (cases ins)
      case True
      with Cons.prems(2) have bc: "bc = sum_list (map brace_delta cur)" by simp
      show ?thesis
      proof (cases "bc + brace_delta l = 0")
        case z: True
        with True False Cons.prems(3)
        have m: "d \<in> set (extract_loop ls (ds @ [concat (cur @ [l])]) []
                            (bc + brace_delta l) False)"
          by simp
        have "brace_delta (concat (cur @ [l])) = 0"
          using z bc by (simp add: brace_delta_concat brace_delta_append)
        with Cons.prems(1) have "\<forall>d\<in>set (ds @ [concat (cur @ [l])]). brace_delta d = 0"
          by simp
        from Cons.IH [OF this _ m] show ?thesis by simp
      next
        case nz: False
        with True False Cons.prems(3)
        have m: "d \<in> set (extract_loop ls ds (cur @ [l]) (bc + brace_delta l) True)" by simp
        have "bc + brace_delta l = sum_list (map brace_delta (cur @ [l]))" using bc by simp
        from Cons.IH [OF Cons.prems(1) this m] show ?thesis .
      qed
    next
      case nins: False
      with False Cons.prems(3) have m: "d \<in> set (extract_loop ls ds cur bc ins)" by simp
      from Cons.IH [OF Cons.prems(1) _ m] nins show ?thesis by simp
    qed
  qed
qed

text \<open>
  Claim C4. Every declaration that \<open>extract_data_structures\<close> appends has as many
  opening as closing braces over its captured lines, for every list of lines and every
  start line, so in particular for every file that is split.
\<close>

theorem extracted_declarations_balanced:
  "d \<in> set (extract_data_structures lines start_line) \<Longrightarrow>
   count_char (CHR ''{'') d = count_char (CHR ''}'') d"
proof -
  assume "d \<in> set (extract_data_structures lines start_line)"
  then have "brace_delta d = 0"
    by (cases start_line)
       (auto simp: extract_data_structures_def dest: extract_loop_balanced [rotated 2])
  then show ?thesis by (simp add: brace_delta_def)
qed

theorem extracted_declarations_balanced_witness:
  "extract_data_structures
     [''public struct A'' @ [CHR 0x0A], ''{ int x;'' @ [CHR 0x0A], ''}'' @ [CHR 0x0A],
      ''}'' @ [CHR 0x0A]] (Some 0) =
     [''public struct A'' @ [CHR 0x0A] @ ''{ int x;'' @ [CHR 0x0A] @ ''}'' @ [CHR 0x0A]] \<and>
   count_char (CHR ''{'') (''public struct A'' @ [CHR 0x0A] @ ''{ int x;'' @ [CHR 0x0A] @
                            ''}'' @ [CHR 0x0A]) =
   count_char (CHR ''}'') (''public struct A'' @ [CHR 0x0A] @ ''{ int x;'' @ [CHR 0x0A] @
                            ''}'' @ [CHR 0x0A])"
proof -
  have e: "extract_data_structures
     [''public struct A'' @ [CHR 0x0A], ''{ int x;'' @ [CHR 0x0A], ''}'' @ [CHR 0x0A],
      ''}'' @ [CHR 0x0A]] (Some 0) =
     [''public struct A'' @ [CHR 0x0A] @ ''{ int x;'' @ [CHR 0x0A] @ ''}'' @ [CHR 0x0A]]"
    by code_simp
  then have "''public struct A'' @ [CHR 0x0A] @ ''{ int x;'' @ [CHR 0x0A] @ ''}'' @ [CHR 0x0A]
      \<in> set (extract_data_structures
     [''public struct A'' @ [CHR 0x0A], ''{ int x;'' @ [CHR 0x0A], ''}'' @ [CHR 0x0A],
      ''}'' @ [CHR 0x0A]] (Some 0))"
    by (simp only: list.set insertI1)
  from extracted_declarations_balanced [OF this] e show ?thesis by (simp only: simp_thms)
qed

lemma path_split: "path_dir p @ path_name p = p"
proof -
  have "rev (dropWhile (\<lambda>c. c \<noteq> CHR ''/'') (rev p)) @ rev (takeWhile (\<lambda>c. c \<noteq> CHR ''/'') (rev p)) =
        rev (takeWhile (\<lambda>c. c \<noteq> CHR ''/'') (rev p) @ dropWhile (\<lambda>c. c \<noteq> CHR ''/'') (rev p))"
    by (simp only: rev_append)
  also have "\<dots> = p" by (simp only: takeWhile_dropWhile_id rev_rev_ident)
  finally show ?thesis by (simp only: path_dir_def path_name_def)
qed

lemma path_stem_prefix:
  "\<exists>rest. name = path_stem name @ rest \<and> (rest = [] \<or> hd rest = CHR ''.'')"
proof (cases "CHR ''.'' \<in> set name \<and>
    0 < length name - length (rev (takeWhile (\<lambda>c. c \<noteq> CHR ''.'') (rev name))) - 1 \<and>
    rev (takeWhile (\<lambda>c. c \<noteq> CHR ''.'') (rev name)) \<noteq> []")
  case False
  then have "path_stem name = name" by (auto simp: path_stem_def Let_def)
  then show ?thesis by simp
next
  case True
  define ext where "ext = takeWhile (\<lambda>c. c \<noteq> CHR ''.'') (rev name)"
  define rst where "rst = dropWhile (\<lambda>c. c \<noteq> CHR ''.'') (rev name)"
  have r: "rev name = ext @ rst" by (simp add: ext_def rst_def)
  from True have "CHR ''.'' \<in> set (rev name)" by simp
  then have ne: "rst \<noteq> []" unfolding rst_def by (simp add: dropWhile_eq_Nil_conv)
  then have "hd rst = CHR ''.''"
    unfolding rst_def using hd_dropWhile [of "\<lambda>c. c \<noteq> CHR ''.''" "rev name"] by simp
  with ne obtain tl' where rst: "rst = CHR ''.'' # tl'" by (cases rst) auto
  from r have "rev (rev name) = rev (ext @ rst)" by (rule arg_cong)
  with rst have n: "name = rev tl' @ CHR ''.'' # rev ext" by simp
  then have "length name = length tl' + 1 + length ext" by simp
  then have len: "length name - length (rev ext) - 1 = length (rev tl')" by simp
  from True have "path_stem name = take (length name - length (rev ext) - 1) name"
    by (simp add: path_stem_def Let_def ext_def)
  also have "\<dots> = take (length (rev tl')) (rev tl' @ CHR ''.'' # rev ext)"
    using len n by simp
  also have "\<dots> = rev tl'" by simp
  finally have "name = path_stem name @ CHR ''.'' # rev ext" using n by simp
  then show ?thesis by (intro exI [of _ "CHR ''.'' # rev ext"]) simp
qed

lemma data_structures_path_not_original: "data_structures_path p \<noteq> p"
proof
  assume e: "data_structures_path p = p"
  obtain rest where r: "path_name p = path_stem (path_name p) @ rest"
    and h: "rest = [] \<or> hd rest = CHR ''.''"
    using path_stem_prefix by blast
  have "path_dir p @ path_stem (path_name p) @ ''DataStructures.cs'' =
        path_dir p @ path_stem (path_name p) @ rest"
    using e r path_split [of p] by (simp add: data_structures_path_def)
  then have "rest = ''DataStructures.cs''" by simp
  with h show False by auto
qed

lemma data_structures_path_not_backup: "data_structures_path p \<noteq> p @ ''.backup''"
proof
  assume "data_structures_path p = p @ ''.backup''"
  then have "last (data_structures_path p) = last (p @ ''.backup'')" by simp
  then show False by (simp add: data_structures_path_def)
qed

lemma backup_not_original: "p @ ''.backup'' \<noteq> p"
  by simp

lemma find_header_from_bounds:
  "find_header_from ls i = Some j \<Longrightarrow> i \<le> j \<and> j < i + length ls \<and> is_header (ls ! (j - i))"
proof (induction ls arbitrary: i)
  case Nil
  then show ?case by simp
next
  case (Cons l ls)
  show ?case
  proof (cases "is_header l \<and> i > 50")
    case True
    with Cons.prems show ?thesis by simp
  next
    case False
    with Cons.prems have "find_header_from ls (Suc i) = Some j" by auto
    from Cons.IH [OF this] show ?thesis by (auto simp: Suc_diff_le)
  qed
qed

lemma find_data_structure_start_bounds:
  "find_data_structure_start lines m = Some start \<Longrightarrow> m \<le> start \<and> start < length lines"
  by (auto simp: find_data_structure_start_def dest!: find_header_from_bounds)


lemma create_streamlined_coordinator_ok:
  assumes "files st1 original = Some content" and "0 < start" and "start \<le> length lines"
  shows "create_streamlined_coordinator original lines (Some start) st1 =
     (Inr (original @ ''.backup''),
      st1\<lparr> files := (files st1)(original @ ''.backup'' \<mapsto> content,
                                 original \<mapsto> coordinator_text lines start),
           log := log st1 @ [Copied original (original @ ''.backup''),
                             Written original (coordinator_text lines start)] \<rparr>)"
  using assms
  by (simp add: create_streamlined_coordinator_def copy2_def end_line_of_def write_text_def Let_def)

lemma refactor_file_success:
  assumes f: "files st filepath = Some content"
    and n: "500 \<le> length (readlines content)"
    and b: "files st (filepath @ ''.backup'') = None"
    and h: "find_data_structure_start (readlines content) 400 = Some start"
    and e: "extract_data_structures (readlines content) (Some start) \<noteq> []"
  shows "refactor_file filepath st =
     (Inr Refactored,
      st\<lparr> files := (files st)
             (data_structures_path filepath \<mapsto>
                data_structures_text filepath
                  (extract_data_structures (readlines content) (Some start))
                  (extract_namespace (concat (readlines content)))
                  (extract_using_statements (readlines content)),
              filepath @ ''.backup'' \<mapsto> content,
              filepath \<mapsto> coordinator_text (readlines content) start),
           log := log st @
             [Written (data_structures_path filepath)
                (data_structures_text filepath
                  (extract_data_structures (readlines content) (Some start))
                  (extract_namespace (concat (readlines content)))
                  (extract_using_statements (readlines content))),
              Copied filepath (filepath @ ''.backup''),
              Written filepath (coordinator_text (readlines content) start)] \<rparr>)"
proof -
  from h have s: "0 < start" "start \<le> length (readlines content)"
    using find_data_structure_start_bounds [OF h] by simp_all
  let ?dst = "data_structures_text filepath
                  (extract_data_structures (readlines content) (Some start))
                  (extract_namespace (concat (readlines content)))
                  (extract_using_statements (readlines content))"
  let ?st1 = "write_text (data_structures_path filepath) ?dst st"
  have f1: "files ?st1 filepath = Some content"
    using f data_structures_path_not_original [of filepath] by (simp add: write_text_def)
  note c = create_streamlined_coordinator_ok [OF f1 s, of ]
  have "refactor_file filepath st =
          (case create_streamlined_coordinator filepath (readlines content) (Some start) ?st1 of
             (Inl e, st2) \<Rightarrow> (Inl e, st2)
           | (Inr backup, st2) \<Rightarrow> (Inr Refactored, st2))"
    using f n b h e
    by (simp add: refactor_file_def count_lines_def create_data_structures_file_def Let_def)
  also have "\<dots> = (Inr Refactored,
      ?st1\<lparr> files := (files ?st1)(filepath @ ''.backup'' \<mapsto> content,
                                 filepath \<mapsto> coordinator_text (readlines content) start),
           log := log ?st1 @ [Copied filepath (filepath @ ''.backup''),
                             Written filepath (coordinator_text (readlines content) start)] \<rparr>)"
    by (simp only: c prod.case sum.case)
  finally show ?thesis by (simp add: write_text_def)
qed

lemma refactor_file_skip:
  assumes "\<not> (\<exists>content start. files st filepath = Some content \<and> 500 \<le> length (readlines content) \<and>
             files st (filepath @ ''.backup'') = None \<and>
             find_data_structure_start (readlines content) 400 = Some start \<and>
             extract_data_structures (readlines content) (Some start) \<noteq> [])"
  shows "\<exists>out. refactor_file filepath st = (Inr out, st) \<and> out \<noteq> Refactored"
proof (cases "files st filepath")
  case None
  then show ?thesis by (simp add: refactor_file_def)
next
  case (Some content)
  show ?thesis
  proof (cases "length (readlines content) < 500")
    case True
    with Some show ?thesis by (simp add: refactor_file_def count_lines_def)
  next
    case big: False
    show ?thesis
    proof (cases "files st (filepath @ ''.backup'')")
      case (Some bk)
      with \<open>files st filepath = Some content\<close> big show ?thesis
        by (simp add: refactor_file_def count_lines_def)
    next
      case None
      show ?thesis
      proof (cases "find_data_structure_start (readlines content) 400")
        case nf: None
        with \<open>files st filepath = Some content\<close> big None show ?thesis
          by (simp add: refactor_file_def count_lines_def Let_def)
      next
        case (Some start)
        with assms \<open>files st filepath = Some content\<close> big None
        have "extract_data_structures (readlines content) (Some start) = []" by auto
        with \<open>files st filepath = Some content\<close> big None Some show ?thesis
          by (simp add: refactor_file_def count_lines_def Let_def)
      qed
    qed
  qed
qed

text \<open>
  Claim C5, as amended. For every file whose backup path already exists, \<open>refactor_file\<close>
  returns \<open>False\<close> on a skip and leaves every file as it is and writes nothing, neither
  the original nor a declarations file. Which skip it is, is decided by the file alone: a
  missing file is skipped as not found, and only then; a file under 500 lines as already
  under the limit, and only then, both before the backup is looked at; and the skip is
  the "already refactored" one exactly when the file exists and has at least 500 lines.
\<close>

theorem existing_backup_means_skip:
  assumes "files st (filepath @ ''.backup'') \<noteq> None"
  shows "\<exists>out. refactor_file filepath st = (Inr out, st) \<and> \<not> returns_true out \<and>
           (out = NotFound \<or> out = AlreadyUnderLimit \<or> out = AlreadyRefactored) \<and>
           (out = NotFound \<longleftrightarrow> files st filepath = None) \<and>
           (out = AlreadyUnderLimit \<longleftrightarrow>
              (\<exists>content. files st filepath = Some content \<and> length (readlines content) < 500)) \<and>
           (out = AlreadyRefactored \<longleftrightarrow>
              (\<exists>content. files st filepath = Some content \<and> 500 \<le> length (readlines content)))"
proof (cases "files st filepath")
  case None
  then show ?thesis by (simp add: refactor_file_def returns_true_def)
next
  case (Some content)
  show ?thesis
  proof (cases "length (readlines content) < 500")
    case True
    with Some show ?thesis by (simp add: refactor_file_def count_lines_def returns_true_def)
  next
    case False
    with Some assms show ?thesis
      by (simp add: refactor_file_def count_lines_def returns_true_def)
  qed
qed

lemma three_events_split:
  "[a, b, c] = pre @ x # post \<Longrightarrow>
   (pre = [] \<and> x = a) \<or> (pre = [a] \<and> x = b) \<or> (pre = [a, b] \<and> x = c)"
  by (auto simp: Cons_eq_append_conv)

text \<open>
  Claim C6. For every file and every state of the files, \<open>refactor_file\<close> returns without
  an exception; on every skip it leaves the state as it is and logs no write; and whenever
  its log holds a write to the original path, the copy of the original to the backup path
  stands before it in the log, and just before that write the backup holds the original
  content and the original is still what it was.
\<close>

theorem backup_precedes_overwrite:
  assumes "refactor_file filepath st = (res, st')"
  shows "\<exists>out evs. res = Inr out \<and> log st' = log st @ evs \<and> files st' = replay evs (files st) \<and>
     (out \<noteq> Refactored \<longrightarrow> st' = st \<and> evs = []) \<and>
     (out = Refactored \<longrightarrow> files st filepath \<noteq> None \<and>
        files st' (filepath @ ''.backup'') = files st filepath) \<and>
     (\<forall>pre content post. evs = pre @ Written filepath content # post \<longrightarrow>
         Copied filepath (filepath @ ''.backup'') \<in> set pre \<and>
         replay pre (files st) (filepath @ ''.backup'') = files st filepath \<and>
         replay pre (files st) filepath = files st filepath)"
proof (cases "\<exists>content start. files st filepath = Some content \<and> 500 \<le> length (readlines content) \<and>
             files st (filepath @ ''.backup'') = None \<and>
             find_data_structure_start (readlines content) 400 = Some start \<and>
             extract_data_structures (readlines content) (Some start) \<noteq> []")
  case False
  from refactor_file_skip [OF False] assms
  obtain out where "res = Inr out" "st' = st" "out \<noteq> Refactored" by auto
  then show ?thesis
    by (intro exI [of _ out] exI [of _ "[]"]) (simp add: replay_def)
next
  case True
  then obtain content start where f: "files st filepath = Some content"
    and n: "500 \<le> length (readlines content)"
    and b: "files st (filepath @ ''.backup'') = None"
    and h: "find_data_structure_start (readlines content) 400 = Some start"
    and e: "extract_data_structures (readlines content) (Some start) \<noteq> []" by blast
  let ?dsp = "data_structures_path filepath"
  let ?dst = "data_structures_text filepath
                  (extract_data_structures (readlines content) (Some start))
                  (extract_namespace (concat (readlines content)))
                  (extract_using_statements (readlines content))"
  let ?evs = "[Written ?dsp ?dst, Copied filepath (filepath @ ''.backup''),
              Written filepath (coordinator_text (readlines content) start)]"
  note d1 = data_structures_path_not_original [of filepath]
  note d2 = data_structures_path_not_backup [of filepath]
  from refactor_file_success [OF f n b h e] assms
  have r: "res = Inr Refactored"
    and s: "st' = st\<lparr> files := (files st)(?dsp \<mapsto> ?dst, filepath @ ''.backup'' \<mapsto> content,
              filepath \<mapsto> coordinator_text (readlines content) start),
           log := log st @ ?evs \<rparr>" by simp_all
  have l: "log st' = log st @ ?evs" using s by simp
  have fs: "files st' = replay ?evs (files st)"
    using s f d1 by (simp add: replay_def)
  have bk: "files st' (filepath @ ''.backup'') = files st filepath"
    using s f by simp
  have ord: "\<forall>pre content' post. ?evs = pre @ Written filepath content' # post \<longrightarrow>
         Copied filepath (filepath @ ''.backup'') \<in> set pre \<and>
         replay pre (files st) (filepath @ ''.backup'') = files st filepath \<and>
         replay pre (files st) filepath = files st filepath"
  proof (intro allI impI)
    fix pre content' post
    assume "?evs = pre @ Written filepath content' # post"
    from three_events_split [OF this] d1
    have "pre = [Written ?dsp ?dst, Copied filepath (filepath @ ''.backup'')]" by auto
    then show "Copied filepath (filepath @ ''.backup'') \<in> set pre \<and>
         replay pre (files st) (filepath @ ''.backup'') = files st filepath \<and>
         replay pre (files st) filepath = files st filepath"
      using d1 by (simp add: replay_def)
  qed
  show ?thesis
    by (rule exI [of _ Refactored], rule exI [of _ ?evs])
       (use r l fs bk ord f in \<open>simp only: simp_thms option.distinct not_False_eq_True\<close>)
qed









lemma split_demo_lines:
  "readlines split_demo =
     replicate 400 ''\<newline>'' @
     [''public struct A\<newline>'', ''{\<newline>'', ''}\<newline>''] @ replicate 97 ''\<newline>''"
  by code_simp

lemma split_demo_start: "find_data_structure_start (readlines split_demo) 400 = Some 400"
proof -
  have "is_header ''public struct A\<newline>''" by code_simp
  then show ?thesis by (simp add: split_demo_lines find_data_structure_start_def)
qed

lemma extract_loop_blank_lines:
  "extract_loop (replicate n ''\<newline>'') ds cur bc False = ds"
proof -
  have "\<not> is_header ''\<newline>''" by code_simp
  then show ?thesis by (induction n) simp_all
qed

lemma split_demo_tail:
  "extract_loop (''public struct A\<newline>'' # ''{\<newline>'' # ''}\<newline>'' # replicate 97 ''\<newline>'')
     [] [] 0 False = [''public struct A\<newline>{\<newline>}\<newline>'']"
proof -
  have "is_header ''public struct A\<newline>''" by code_simp
  then show ?thesis
    by (simp add: extract_loop_blank_lines brace_delta_def count_char_def)
qed

lemma split_demo_extract:
  "extract_data_structures (readlines split_demo) (Some 400) =
     [''public struct A\<newline>{\<newline>}\<newline>'']"
proof -
  have "drop 400 (readlines split_demo) =
          ''public struct A\<newline>'' # ''{\<newline>'' # ''}\<newline>'' # replicate 97 ''\<newline>''"
    by (simp add: split_demo_lines)
  then show ?thesis by (simp only: extract_data_structures_def option.case split_demo_tail)
qed

lemma concat_blank_lines: "concat (replicate n [x]) = replicate n x"
  by (induction n) simp_all

lemma split_demo_coordinator:
  "coordinator_text (readlines split_demo) 400 = replicate 400 (CHR ''\<newline>'')"
proof -
  have "brace_delta ''\<newline>'' = 0" by (simp add: brace_delta_def count_char_def)
  then show ?thesis
    by (simp add: coordinator_text_def split_demo_lines sum_list_replicate
        concat_blank_lines)
qed


lemma namespace_at_needs_n: "namespace_at s = Some x \<Longrightarrow> CHR ''n'' \<in> set s"
  by (auto simp: namespace_at_def prefix_def split: if_splits)

lemma search_namespace_needs_n: "CHR ''n'' \<notin> set s \<Longrightarrow> search_namespace s = None"
proof (induction s)
  case Nil
  then show ?case by simp
next
  case (Cons c cs)
  from Cons.prems have "namespace_at (c # cs) = None"
    using namespace_at_needs_n [of "c # cs"] by (cases "namespace_at (c # cs)") auto
  with Cons show ?case by simp
qed

lemma extract_using_blank_lines:
  "extract_using_statements (replicate n ''\<newline>'' @ rest) = extract_using_statements rest"
proof -
  have "strip ''\<newline>'' = []" by code_simp
  then show ?thesis by (induction n) simp_all
qed

lemma split_demo_declarations_file:
  "data_structures_path ''Foo.cs'' = ''FooDataStructures.cs'' \<and>
   data_structures_text ''Foo.cs'' [''public struct A\<newline>{\<newline>}\<newline>'']
     (extract_namespace (concat (readlines split_demo)))
     (extract_using_statements (readlines split_demo)) =
   ''// REFACTORED: Data Structures\<newline>// Extracted from Foo.cs for better separation of concerns\<newline>\<newline>\<newline>namespace ProjectChimera\<newline>{\<newline>public struct A\<newline>{\<newline>}\<newline>\<newline>}\<newline>''"
proof -
  have p: "data_structures_path ''Foo.cs'' = ''FooDataStructures.cs''" by code_simp
  have "CHR ''n'' \<notin> set (concat (readlines split_demo))"
    by (simp add: split_demo_lines)
  then have n: "extract_namespace (concat (readlines split_demo)) = ''ProjectChimera''"
    by (simp add: extract_namespace_def search_namespace_needs_n)
  have "strip ''public struct A\<newline>'' = ''public struct A''" by code_simp
  then have u: "extract_using_statements (readlines split_demo) = []"
    by (simp add: split_demo_lines extract_using_blank_lines)
  have t: "data_structures_text ''Foo.cs'' [''public struct A\<newline>{\<newline>}\<newline>'']
     ''ProjectChimera'' [] =
   ''// REFACTORED: Data Structures\<newline>// Extracted from Foo.cs for better separation of concerns\<newline>\<newline>\<newline>namespace ProjectChimera\<newline>{\<newline>public struct A\<newline>{\<newline>}\<newline>\<newline>}\<newline>''"
    by code_simp
  from p n u t show ?thesis by (simp only: simp_thms)
qed

lemma split_demo_run:
  "refactor_file ''Foo.cs'' split_demo_state = (Inr Refactored, split_demo_result)"
proof -
  have f: "files split_demo_state ''Foo.cs'' = Some split_demo"
    by (simp add: split_demo_state_def)
  have n: "500 \<le> length (readlines split_demo)" by (simp add: split_demo_lines)
  have b: "files split_demo_state (''Foo.cs'' @ ''.backup'') = None"
    by (simp add: split_demo_state_def)
  have e: "extract_data_structures (readlines split_demo) (Some 400) \<noteq> []"
    by (simp add: split_demo_extract)
  have m: "[''Foo.cs'' \<mapsto> split_demo]
             (''FooDataStructures.cs'' \<mapsto> d, ''Foo.cs.backup'' \<mapsto> split_demo, ''Foo.cs'' \<mapsto> c) =
           [''Foo.cs'' \<mapsto> c, ''Foo.cs.backup'' \<mapsto> split_demo, ''FooDataStructures.cs'' \<mapsto> d]"
    for c d :: string
    by (rule ext) simp
  from refactor_file_success [OF f n b split_demo_start e]
  have "refactor_file ''Foo.cs'' split_demo_state =
     (Inr Refactored,
      split_demo_state
        \<lparr> files := (files split_demo_state)
             (''FooDataStructures.cs'' \<mapsto>
                ''// REFACTORED: Data Structures\<newline>// Extracted from Foo.cs for better separation of concerns\<newline>\<newline>\<newline>namespace ProjectChimera\<newline>{\<newline>public struct A\<newline>{\<newline>}\<newline>\<newline>}\<newline>'',
              ''Foo.cs'' @ ''.backup'' \<mapsto> split_demo,
              ''Foo.cs'' \<mapsto> replicate 400 (CHR ''\<newline>'')),
          log := log split_demo_state @
             [Written ''FooDataStructures.cs''
                ''// REFACTORED: Data Structures\<newline>// Extracted from Foo.cs for better separation of concerns\<newline>\<newline>\<newline>namespace ProjectChimera\<newline>{\<newline>public struct A\<newline>{\<newline>}\<newline>\<newline>}\<newline>'',
              Copied ''Foo.cs'' (''Foo.cs'' @ ''.backup''),
              Written ''Foo.cs'' (replicate 400 (CHR ''\<newline>''))] \<rparr>)"
    by (simp only: split_demo_extract split_demo_coordinator split_demo_declarations_file)
  also have "\<dots> = (Inr Refactored, split_demo_result)"
    using m by (simp add: split_demo_state_def split_demo_result_def)
  finally show ?thesis .
qed

lemma split_demo_coordinator_lines: "length (readlines (replicate 400 (CHR ''\<newline>''))) = 400"
  by code_simp



lemma split_demo_rerun:
  "refactor_file ''Foo.cs'' split_demo_result = (Inr AlreadyUnderLimit, split_demo_result)"
proof -
  have "files split_demo_result ''Foo.cs'' = Some (replicate 400 (CHR ''\<newline>''))"
    by (simp add: split_demo_result_def)
  then show ?thesis
    by (simp add: refactor_file_def count_lines_def split_demo_coordinator_lines)
qed

text \<open>
  The claim C5 as stated fails on the re-run over the example file: the backup exists, and
  the skip is "already under 500 lines", the coordinator having 400 lines.
\<close>

theorem rerun_skip_reason_counterexample:
  "files (snd (refactor_file ''Foo.cs'' split_demo_state)) (''Foo.cs'' @ ''.backup'') =
     Some split_demo \<and>
   fst (refactor_file ''Foo.cs'' (snd (refactor_file ''Foo.cs'' split_demo_state))) =
     Inr AlreadyUnderLimit"
proof -
  have "snd (refactor_file ''Foo.cs'' split_demo_state) = split_demo_result"
    by (simp only: split_demo_run snd_conv)
  moreover have "files split_demo_result (''Foo.cs'' @ ''.backup'') = Some split_demo"
    by (simp add: split_demo_result_def)
  ultimately show ?thesis by (simp only: split_demo_rerun fst_conv simp_thms)
qed

theorem existing_backup_means_skip_witness:
  "refactor_file ''Foo.cs'' (snd (refactor_file ''Foo.cs'' split_demo_state)) =
     (Inr AlreadyUnderLimit, snd (refactor_file ''Foo.cs'' split_demo_state)) \<and>
   refactor_file ''Foo.cs''
       \<lparr> files = [''Foo.cs'' \<mapsto> split_demo, ''Foo.cs.backup'' \<mapsto> split_demo], log = [] \<rparr> =
     (Inr AlreadyRefactored,
       \<lparr> files = [''Foo.cs'' \<mapsto> split_demo, ''Foo.cs.backup'' \<mapsto> split_demo], log = [] \<rparr>) \<and>
   refactor_file ''Foo.cs'' \<lparr> files = [''Foo.cs.backup'' \<mapsto> split_demo], log = [] \<rparr> =
     (Inr NotFound, \<lparr> files = [''Foo.cs.backup'' \<mapsto> split_demo], log = [] \<rparr>)"
proof -
  have b1: "files (snd (refactor_file ''Foo.cs'' split_demo_state)) (''Foo.cs'' @ ''.backup'') \<noteq> None"
    by (simp add: split_demo_run split_demo_result_def)
  have s1: "\<exists>content. files (snd (refactor_file ''Foo.cs'' split_demo_state)) ''Foo.cs'' =
               Some content \<and> length (readlines content) < 500"
    by (simp add: split_demo_run split_demo_result_def split_demo_coordinator_lines)
  from existing_backup_means_skip [OF b1] s1
  have 1: "refactor_file ''Foo.cs'' (snd (refactor_file ''Foo.cs'' split_demo_state)) =
     (Inr AlreadyUnderLimit, snd (refactor_file ''Foo.cs'' split_demo_state))"
    by blast
  have b2: "files \<lparr> files = [''Foo.cs'' \<mapsto> split_demo, ''Foo.cs.backup'' \<mapsto> split_demo], log = [] \<rparr>
              (''Foo.cs'' @ ''.backup'') \<noteq> None"
    by simp
  have s2: "\<exists>content. files \<lparr> files = [''Foo.cs'' \<mapsto> split_demo, ''Foo.cs.backup'' \<mapsto> split_demo],
                               log = [] \<rparr> ''Foo.cs'' = Some content \<and>
               500 \<le> length (readlines content)"
    by (simp add: split_demo_lines)
  from existing_backup_means_skip [OF b2] s2
  have 2: "refactor_file ''Foo.cs''
       \<lparr> files = [''Foo.cs'' \<mapsto> split_demo, ''Foo.cs.backup'' \<mapsto> split_demo], log = [] \<rparr> =
     (Inr AlreadyRefactored,
       \<lparr> files = [''Foo.cs'' \<mapsto> split_demo, ''Foo.cs.backup'' \<mapsto> split_demo], log = [] \<rparr>)"
    by blast
  have b3: "files \<lparr> files = [''Foo.cs.backup'' \<mapsto> split_demo], log = [] \<rparr>
              (''Foo.cs'' @ ''.backup'') \<noteq> None"
    by simp
  have s3: "files \<lparr> files = [''Foo.cs.backup'' \<mapsto> split_demo], log = [] \<rparr> ''Foo.cs'' = None"
    by simp
  from existing_backup_means_skip [OF b3] s3
  have 3: "refactor_file ''Foo.cs'' \<lparr> files = [''Foo.cs.backup'' \<mapsto> split_demo], log = [] \<rparr> =
     (Inr NotFound, \<lparr> files = [''Foo.cs.backup'' \<mapsto> split_demo], log = [] \<rparr>)"
    by blast
  from 1 2 3 show ?thesis by (simp only: simp_thms)
qed

theorem backup_precedes_overwrite_witness:
  "\<exists>evs. log (snd (refactor_file ''Foo.cs'' split_demo_state)) = evs \<and>
      files (snd (refactor_file ''Foo.cs'' split_demo_state)) = replay evs (files split_demo_state) \<and>
      files (snd (refactor_file ''Foo.cs'' split_demo_state)) ''Foo.cs.backup'' = Some split_demo \<and>
      (\<forall>pre content post. evs = pre @ Written ''Foo.cs'' content # post \<longrightarrow>
         Copied ''Foo.cs'' ''Foo.cs.backup'' \<in> set pre \<and>
         replay pre (files split_demo_state) ''Foo.cs.backup'' = Some split_demo \<and>
         replay pre (files split_demo_state) ''Foo.cs'' = Some split_demo)"
proof -
  have r: "refactor_file ''Foo.cs'' split_demo_state =
             (Inr Refactored, snd (refactor_file ''Foo.cs'' split_demo_state))"
    by (simp add: split_demo_run)
  have f: "files split_demo_state ''Foo.cs'' = Some split_demo"
    by (simp add: split_demo_state_def)
  have l: "log split_demo_state = []" by (simp add: split_demo_state_def)
  from backup_precedes_overwrite [OF r] f l show ?thesis by auto
qed

end
